theory Spec2Isabelle
  imports Complex_Main
begin

unbundle bit_operations_syntax

section \<open>Motion detector (motion\_detection/detector.py)\<close>

text \<open>
  Timestamps (\<^verbatim>\<open>time.time()\<close>), contour areas and the padding ratio are Python
  floats. They are modelled as reals: the detector only subtracts two timestamps and
  compares the difference with a configured interval, and compares areas. The float
  subtraction of two clock values within a factor of two of each other is exact, and so
  is the subtraction of the initial \<open>0.0\<close>.
\<close>

text \<open>A bounding rectangle \<^verbatim>\<open>(x, y, w, h)\<close> as returned by \<^verbatim>\<open>cv2.boundingRect\<close>.\<close>

type_synonym rect = "int \<times> int \<times> int \<times> int"

text \<open>
  A contour found in the foreground mask, with the two things the detector asks of it:
  \<^verbatim>\<open>cv2.contourArea(c)\<close> and \<^verbatim>\<open>cv2.boundingRect(c)\<close>.
\<close>

record contour =
  area :: real
  bounding :: rect

text \<open>
  An image array: \<^verbatim>\<open>frame.shape[:2] = (H, W)\<close> and the pixel at row \<open>i\<close>, column \<open>j\<close>.
\<close>

record frame =
  height :: nat
  width :: nat
  pixel :: "nat \<Rightarrow> nat \<Rightarrow> nat"

text \<open>The constructor arguments of \<^verbatim>\<open>MotionDetector\<close> that the loop reads.\<close>

record config =
  min_contour_area :: real
  pad_ratio :: real
  show_windows :: bool
  cooldown :: real
  quiet :: real

text \<open>The mutable state of \<^verbatim>\<open>MotionDetector\<close>.\<close>

record detector =
  motion_on :: bool
  last_motion_seen_ts :: real
  last_rise_ts :: real

definition init_detector :: detector where
  "init_detector = \<lparr>motion_on = False, last_motion_seen_ts = 0, last_rise_ts = 0\<rparr>"

text \<open>
  The callbacks the loop invokes: \<^verbatim>\<open>on_rise(crop)\<close>, where \<^verbatim>\<open>crop\<close> may be
  \<^verbatim>\<open>None\<close>, and \<^verbatim>\<open>on_fall()\<close>.
\<close>

datatype event = Rise "frame option" | Fall

text \<open>
  What one pass of the \<^verbatim>\<open>while True\<close> loop reads from the outside: the result of
  \<^verbatim>\<open>cap.read()\<close>, the contours \<^verbatim>\<open>cv2.findContours\<close> returns for the cleaned
  mask, the clock, and the key \<^verbatim>\<open>cv2.waitKey(1)\<close> returns when the preview is shown.
\<close>

record reading =
  ok :: bool
  img :: frame
  cnts :: "contour list"
  now :: real
  key :: int

text \<open>\<^verbatim>\<open>_largest_contour\<close>: the loop over \<^verbatim>\<open>cnts\<close> with its two accumulators.\<close>

fun largest_contour_from :: "contour option \<Rightarrow> real \<Rightarrow> contour list \<Rightarrow> real \<Rightarrow> contour option" where
  "largest_contour_from best best_a [] min_area = best"
| "largest_contour_from best best_a (c # cs) min_area =
     (if area c > min_area \<and> area c > best_a
      then largest_contour_from (Some c) (area c) cs min_area
      else largest_contour_from best best_a cs min_area)"

definition largest_contour :: "contour list \<Rightarrow> real \<Rightarrow> contour option" where
  "largest_contour cs min_area = largest_contour_from None 0 cs min_area"

text \<open>Python's \<^verbatim>\<open>int(x)\<close> on a float truncates towards zero.\<close>

definition py_int :: "real \<Rightarrow> int" where
  "py_int r = (if 0 \<le> r then \<lfloor>r\<rfloor> else \<lceil>r\<rceil>)"

text \<open>
  One bound of a Python slice on an axis of length \<open>n\<close>: a negative index counts from
  the end, and the result is clipped to \<open>0..n\<close>.
\<close>

definition slice_bound :: "int \<Rightarrow> nat \<Rightarrow> nat" where
  "slice_bound i n = (if i < 0 then nat (max 0 (i + int n)) else min (nat i) n)"

text \<open>\<^verbatim>\<open>frame[y0:y1, x0:x1].copy()\<close>\<close>

definition slice2 :: "frame \<Rightarrow> int \<Rightarrow> int \<Rightarrow> int \<Rightarrow> int \<Rightarrow> frame" where
  "slice2 fr y0 y1 x0 x1 =
     (let r0 = slice_bound y0 (height fr); r1 = slice_bound y1 (height fr);
          c0 = slice_bound x0 (width fr); c1 = slice_bound x1 (width fr)
      in \<lparr>height = r1 - r0, width = c1 - c0,
          pixel = (\<lambda>i j. pixel fr (r0 + i) (c0 + j))\<rparr>)"

text \<open>\<^verbatim>\<open>pad = int(max(w, h) * self.pad_ratio)\<close>\<close>

definition pad_of :: "config \<Rightarrow> rect \<Rightarrow> int" where
  "pad_of cfg r = (case r of (x, y, w, h) \<Rightarrow> py_int (real_of_int (max w h) * pad_ratio cfg))"

text \<open>The clamped corners \<^verbatim>\<open>(x0, y0, x1, y1)\<close> computed by \<^verbatim>\<open>_crop_with_pad\<close>.\<close>

definition crop_corners :: "config \<Rightarrow> frame \<Rightarrow> rect \<Rightarrow> int \<times> int \<times> int \<times> int" where
  "crop_corners cfg fr r = (case r of (x, y, w, h) \<Rightarrow>
     (let pad = pad_of cfg r;
          H = int (height fr); W = int (width fr);
          x0 = max 0 (x - pad); y0 = max 0 (y - pad);
          x1 = min W (x + w + pad); y1 = min H (y + h + pad)
      in (x0, y0, x1, y1)))"

text \<open>\<^verbatim>\<open>_crop_with_pad\<close>: the cropped copy and the corners.\<close>

definition crop_with_pad :: "config \<Rightarrow> frame \<Rightarrow> rect \<Rightarrow> frame \<times> (int \<times> int \<times> int \<times> int)" where
  "crop_with_pad cfg fr r = (case crop_corners cfg fr r of (x0, y0, x1, y1) \<Rightarrow>
     (slice2 fr y0 y1 x0 x1, (x0, y0, x1, y1)))"

text \<open>\<^verbatim>\<open>motion_now = big is not None\<close>\<close>

definition motion_now :: "config \<Rightarrow> reading \<Rightarrow> bool" where
  "motion_now cfg r = (largest_contour (cnts r) (min_contour_area cfg) \<noteq> None)"

text \<open>The guard of the rising edge, on the state after \<^verbatim>\<open>last_motion_seen_ts\<close> was updated.\<close>

definition rise_guard :: "config \<Rightarrow> detector \<Rightarrow> reading \<Rightarrow> bool" where
  "rise_guard cfg s r =
     (\<not> motion_on s \<and> motion_now cfg r \<and> cooldown cfg \<le> now r - last_rise_ts s)"

text \<open>The three state updates of one pass, in the order of the source.\<close>

definition see_motion :: "config \<Rightarrow> detector \<Rightarrow> reading \<Rightarrow> detector" where
  "see_motion cfg s r = (if motion_now cfg r then s\<lparr>last_motion_seen_ts := now r\<rparr> else s)"

definition rising_edge :: "config \<Rightarrow> detector \<Rightarrow> reading \<Rightarrow> detector \<times> event list" where
  "rising_edge cfg s r =
     (if rise_guard cfg s r
      then (s\<lparr>motion_on := True, last_rise_ts := now r\<rparr>,
            [Rise (case largest_contour (cnts r) (min_contour_area cfg) of
                     None \<Rightarrow> None
                   | Some big \<Rightarrow> Some (fst (crop_with_pad cfg (img r) (bounding big))))])
      else (s, []))"

definition falling_edge :: "config \<Rightarrow> detector \<Rightarrow> reading \<Rightarrow> detector \<times> event list" where
  "falling_edge cfg s r =
     (if motion_on s \<and> quiet cfg \<le> now r - last_motion_seen_ts s
      then (s\<lparr>motion_on := False\<rparr>, [Fall])
      else (s, []))"

text \<open>One pass of the loop body on a frame that was read: the new state and the callbacks made.\<close>

definition iteration :: "config \<Rightarrow> detector \<Rightarrow> reading \<Rightarrow> detector \<times> event list" where
  "iteration cfg s r =
     (let s1 = see_motion cfg s r;
          (s2, ev1) = rising_edge cfg s1 r;
          (s3, ev2) = falling_edge cfg s2 r
      in (s3, ev1 @ ev2))"

text \<open>
  The \<^verbatim>\<open>while True\<close> loop over the readings that arrive. It ends when a read fails, when
  the preview is shown and Escape is pressed, or with the readings seen so far. Each
  callback is recorded with the clock value of its pass.
\<close>

fun loop :: "config \<Rightarrow> detector \<Rightarrow> reading list \<Rightarrow> detector \<times> (real \<times> event) list" where
  "loop cfg s [] = (s, [])"
| "loop cfg s (r # rs) =
     (if \<not> ok r then (s, [])
      else (let (s', evs) = iteration cfg s r;
                out = map (Pair (now r)) evs
            in if show_windows cfg \<and> key r AND 0xFF = 27 then (s', out)
               else (let (s'', rest) = loop cfg s' rs in (s'', out @ rest))))"

text \<open>\<^verbatim>\<open>MotionDetector.loop\<close>: a camera that cannot be opened raises.\<close>

datatype error = RuntimeError | Exception

definition MotionDetector_loop ::
  "config \<Rightarrow> bool \<Rightarrow> reading list \<Rightarrow> error + (detector \<times> (real \<times> event) list)" where
  "MotionDetector_loop cfg opened rs =
     (if \<not> opened then Inl RuntimeError else Inr (loop cfg init_detector rs))"

fun is_rise :: "event \<Rightarrow> bool" where
  "is_rise (Rise c) = True"
| "is_rise Fall = False"

definition rise_times :: "(real \<times> event) list \<Rightarrow> real list" where
  "rise_times tr = map fst (filter (\<lambda>te. is_rise (snd te)) tr)"


text \<open>The clock value of the last reading of a run on which motion was present, if any.\<close>

definition since_motion :: "config \<Rightarrow> reading list \<Rightarrow> real option" where
  "since_motion cfg rs =
     (case rev (filter (motion_now cfg) rs) of [] \<Rightarrow> None | m # ms \<Rightarrow> Some (now m))"

text \<open>The last callback of a trace was \<^verbatim>\<open>on_rise\<close>: a rise not yet followed by a fall.\<close>

definition after_rise :: "(real \<times> event) list \<Rightarrow> bool" where
  "after_rise tr = (case rev tr of [] \<Rightarrow> False | te # _ \<Rightarrow> is_rise (snd te))"

text \<open>A reading after which the loop goes on to the next one.\<close>

definition continues :: "config \<Rightarrow> reading \<Rightarrow> bool" where
  "continues cfg r = (ok r \<and> \<not> (show_windows cfg \<and> key r AND 0xFF = 27))"

section \<open>CoAP resources (coap/server.py)\<close>

text \<open>Byte strings are lists of 8-bit characters.\<close>

type_synonym bytes = string

type_synonym peer = nat

text \<open>
  The part of \<^verbatim>\<open>aiocoap.resource.ObservableResource\<close> the resources inherit: the
  registered observers, the number of value changes announced so far, and the
  notifications scheduled (observer and sequence number).
\<close>

record observable =
  sequence :: nat
  subscribers :: "peer list"
  outbox :: "(peer \<times> nat) list"

text \<open>
  Modelled from the spec: \<^verbatim>\<open>updated_state\<close> belongs to the aiocoap library, which is not
  part of the sources. Following the spec's \<open>Set\<close> contract, announcing a change
  increments \<open>sequence\<close> and schedules one notification to every current subscriber.
\<close>

definition updated_state :: "'a observable_scheme \<Rightarrow> 'a observable_scheme" where
  "updated_state ob =
     ob\<lparr>sequence := Suc (sequence ob),
        outbox := outbox ob @ map (\<lambda>p. (p, Suc (sequence ob))) (subscribers ob)\<rparr>"

record motion_resource = observable +
  motion :: bytes

record last_detection_resource = observable +
  ts :: bytes

record image_resource =
  jpeg :: bytes

record class_resource = observable +
  label :: bytes

text \<open>The constructors: no observer yet, nothing announced, and the initial payload.\<close>

definition MotionResource_init :: motion_resource where
  "MotionResource_init = \<lparr>sequence = 0, subscribers = [], outbox = [], motion = ''false''\<rparr>"

definition LastDetectionResource_init :: last_detection_resource where
  "LastDetectionResource_init = \<lparr>sequence = 0, subscribers = [], outbox = [], ts = []\<rparr>"

definition ImageResource_init :: image_resource where
  "ImageResource_init = \<lparr>jpeg = []\<rparr>"

definition ClassResource_init :: class_resource where
  "ClassResource_init = \<lparr>sequence = 0, subscribers = [], outbox = [], label = []\<rparr>"

text \<open>The number of notifications scheduled so far for one observer.\<close>

definition notified :: "'a observable_scheme \<Rightarrow> peer \<Rightarrow> nat" where
  "notified ob p = length (filter (\<lambda>n. fst n = p) (outbox ob))"

text \<open>\<^verbatim>\<open>aiocoap.Code\<close> values and a \<^verbatim>\<open>Message\<close> with the fields the programs set.\<close>

datatype Code = GET | PUT | CHANGED

record message =
  mcode :: "Code option"
  payload :: bytes
  content_format :: "nat option"
  observe :: "nat option"

text \<open>\<^verbatim>\<open>numbers.media_types_rev\<close> at \<^verbatim>\<open>'text/plain'\<close> and \<^verbatim>\<open>'image/jpeg'\<close>.\<close>

definition text_plain :: nat where "text_plain = 0"
definition image_jpeg :: nat where "image_jpeg = 22"

definition MotionResource_render_get :: "motion_resource \<Rightarrow> message" where
  "MotionResource_render_get r =
     \<lparr>mcode = None, payload = motion r, content_format = Some text_plain, observe = None\<rparr>"

text \<open>\<^verbatim>\<open>MotionResource.set\<close>\<close>

definition MotionResource_set :: "motion_resource \<Rightarrow> bytes \<Rightarrow> motion_resource" where
  "MotionResource_set r val = (if motion r \<noteq> val then updated_state (r\<lparr>motion := val\<rparr>) else r)"

definition LastDetectionResource_render_get :: "last_detection_resource \<Rightarrow> message" where
  "LastDetectionResource_render_get r =
     \<lparr>mcode = None, payload = ts r, content_format = Some text_plain, observe = None\<rparr>"

text \<open>
  \<^verbatim>\<open>LastDetectionResource.set_now\<close>. The argument is a Python \<^verbatim>\<open>str\<close>; its encoder
  \<^verbatim>\<open>str.encode\<close> is a parameter.
\<close>

definition set_now :: "('s \<Rightarrow> bytes) \<Rightarrow> last_detection_resource \<Rightarrow> 's \<Rightarrow> last_detection_resource" where
  "set_now encode r s =
     (let new = encode s in if new \<noteq> ts r then updated_state (r\<lparr>ts := new\<rparr>) else r)"

definition ImageResource_render_get :: "image_resource \<Rightarrow> message" where
  "ImageResource_render_get r =
     \<lparr>mcode = None, payload = jpeg r, content_format = Some image_jpeg, observe = None\<rparr>"

definition set_jpeg :: "image_resource \<Rightarrow> bytes \<Rightarrow> image_resource" where
  "set_jpeg r buf = r\<lparr>jpeg := buf\<rparr>"

definition ClassResource_render_get :: "class_resource \<Rightarrow> message" where
  "ClassResource_render_get r =
     \<lparr>mcode = None, payload = label r, content_format = Some text_plain, observe = None\<rparr>"

text \<open>\<^verbatim>\<open>bytes.strip()\<close> removes leading and trailing ASCII whitespace.\<close>

definition is_space :: "char \<Rightarrow> bool" where
  "is_space c = (c = CHR '' '' \<or> c = CHR 0x09 \<or> c = CHR 0x0A \<or> c = CHR 0x0B
                 \<or> c = CHR 0x0C \<or> c = CHR 0x0D)"

definition strip :: "bytes \<Rightarrow> bytes" where
  "strip b = rev (dropWhile is_space (rev (dropWhile is_space b)))"

text \<open>\<^verbatim>\<open>request.payload or b""\<close>\<close>

definition or_empty :: "bytes option \<Rightarrow> bytes" where
  "or_empty p = (case p of None \<Rightarrow> [] | Some b \<Rightarrow> b)"

text \<open>\<^verbatim>\<open>ClassResource.render_put\<close>: the resource afterwards and the response.\<close>

definition render_put :: "class_resource \<Rightarrow> bytes option \<Rightarrow> class_resource \<times> message" where
  "render_put r request_payload =
     (let new = strip (or_empty request_payload);
          r' = (if new \<noteq> label r then updated_state (r\<lparr>label := new\<rparr>) else r)
      in (r', \<lparr>mcode = Some CHANGED, payload = ''ok'', content_format = None, observe = None\<rparr>))"

text \<open>The four resources \<^verbatim>\<open>start_server\<close> creates.\<close>

record site =
  motion_res :: motion_resource
  last_res :: last_detection_resource
  image_res :: image_resource
  class_res :: class_resource

definition start_site :: site where
  "start_site = \<lparr>motion_res = MotionResource_init, last_res = LastDetectionResource_init,
                  image_res = ImageResource_init, class_res = ClassResource_init\<rparr>"

text \<open>\<^verbatim>\<open>crop_bgr.size\<close> of a three-channel image.\<close>

definition array_size :: "frame \<Rightarrow> nat" where
  "array_size f = height f * width f * 3"

text \<open>
  The three statements of \<^verbatim>\<open>on_rise\<close>. \<^verbatim>\<open>cv2.imencode\<close> is a parameter: it gives the
  JPEG bytes, or \<open>None\<close> when it reports \<^verbatim>\<open>ok = False\<close>. The formatted wall-clock time
  \<^verbatim>\<open>datetime.now().strftime(...)\<close> is an argument.
\<close>

definition rise_image :: "(frame \<Rightarrow> bytes option) \<Rightarrow> site \<Rightarrow> frame option \<Rightarrow> site" where
  "rise_image imencode st crop_bgr =
     (case crop_bgr of
        None \<Rightarrow> st
      | Some c \<Rightarrow>
          (if 0 < array_size c
           then (case imencode c of
                   Some buf \<Rightarrow> st\<lparr>image_res := set_jpeg (image_res st) buf\<rparr>
                 | None \<Rightarrow> st)
           else st))"

definition rise_last :: "('s \<Rightarrow> bytes) \<Rightarrow> site \<Rightarrow> 's \<Rightarrow> site" where
  "rise_last encode st stamp = st\<lparr>last_res := set_now encode (last_res st) stamp\<rparr>"

definition rise_motion :: "site \<Rightarrow> site" where
  "rise_motion st = st\<lparr>motion_res := MotionResource_set (motion_res st) ''true''\<rparr>"

text \<open>
  The states of the resources that exist while \<^verbatim>\<open>on_rise\<close> runs: before it, and after
  each of its three statements. The detector thread runs \<^verbatim>\<open>on_rise\<close> while the server
  answers requests, so each of them can be read.
\<close>

definition on_rise_states ::
  "(frame \<Rightarrow> bytes option) \<Rightarrow> ('s \<Rightarrow> bytes) \<Rightarrow> site \<Rightarrow> frame option \<Rightarrow> 's \<Rightarrow> site list" where
  "on_rise_states imencode encode st crop_bgr stamp =
     (let s1 = rise_image imencode st crop_bgr;
          s2 = rise_last encode s1 stamp;
          s3 = rise_motion s2
      in [st, s1, s2, s3])"

definition on_rise ::
  "(frame \<Rightarrow> bytes option) \<Rightarrow> ('s \<Rightarrow> bytes) \<Rightarrow> site \<Rightarrow> frame option \<Rightarrow> 's \<Rightarrow> site" where
  "on_rise imencode encode st crop_bgr stamp =
     rise_motion (rise_last encode (rise_image imencode st crop_bgr) stamp)"

definition on_fall :: "site \<Rightarrow> site" where
  "on_fall st = st\<lparr>motion_res := MotionResource_set (motion_res st) ''false''\<rparr>"

section \<open>Classification client (coap-motion-classifier/classifier.py)\<close>

record request =
  meth :: Code
  uri :: string
  body :: bytes
  observe_opt :: "nat option"

definition CAMERA :: string where "CAMERA = ''coap://192.168.8.222:5683''"
definition PATH_LAST :: string where "PATH_LAST = CAMERA @ ''/lastdetection''"
definition PATH_IMAGE :: string where "PATH_IMAGE = CAMERA @ ''/image''"
definition PATH_CLASS :: string where "PATH_CLASS = CAMERA @ ''/class''"

text \<open>\<^verbatim>\<open>infer_jpeg\<close>: no model is loaded, the label is always the same.\<close>

definition infer_jpeg :: "bytes \<Rightarrow> string" where
  "infer_jpeg jpeg_bytes = ''unknown''"

text \<open>The three requests the client builds.\<close>

definition observe_last :: request where
  "observe_last = \<lparr>meth = GET, uri = PATH_LAST, body = [], observe_opt = Some 0\<rparr>"

definition get_image :: request where
  "get_image = \<lparr>meth = GET, uri = PATH_IMAGE, body = [], observe_opt = None\<rparr>"

definition put_class :: "bytes \<Rightarrow> request" where
  "put_class b = \<lparr>meth = PUT, uri = PATH_CLASS, body = b, observe_opt = None\<rparr>"

text \<open>
  \<^verbatim>\<open>handle_notification\<close>: the requests the task sends. The network is a parameter: the
  response to a request, or \<open>None\<close> when awaiting it raises. The label is ASCII, so
  \<^verbatim>\<open>label.encode('utf-8')\<close> is the same bytes.
\<close>

definition handle_notification :: "(request \<Rightarrow> message option) \<Rightarrow> message \<Rightarrow> request list" where
  "handle_notification net msg =
     (case net get_image of
        None \<Rightarrow> [get_image]
      | Some reply \<Rightarrow> (let lbl = infer_jpeg (payload reply) in [get_image, put_class lbl]))"

text \<open>
  \<^verbatim>\<open>main\<close> of the client: the observing read of \<^verbatim>\<open>lastdetection\<close>, then one task per
  notification handed to the callback. The result lists, task by task, the requests sent.
  \<open>decodes\<close> tells whether \<^verbatim>\<open>r.payload.decode()\<close> succeeds.
\<close>

definition client_main ::
  "(request \<Rightarrow> message option) \<Rightarrow> (bytes \<Rightarrow> bool) \<Rightarrow> message list \<Rightarrow> request list list" where
  "client_main net decodes notifications =
     (case net observe_last of
        None \<Rightarrow> [[observe_last]]
      | Some r \<Rightarrow>
          (if \<not> decodes (payload r) then [[observe_last]]
           else [observe_last] # map (handle_notification net) notifications))"

text \<open>
  The protocol in the words of the spec, for comparison: only a notification whose
  sequence is strictly greater than the last one processed is acted on.
\<close>

fun spec_fresh :: "nat option \<Rightarrow> message list \<Rightarrow> message list" where
  "spec_fresh last_seq [] = []"
| "spec_fresh last_seq (m # ms) =
     (case observe m of
        None \<Rightarrow> spec_fresh last_seq ms
      | Some n \<Rightarrow>
          (if (case last_seq of None \<Rightarrow> True | Some k \<Rightarrow> k < n)
           then m # spec_fresh (Some n) ms
           else spec_fresh last_seq ms))"

definition spec_client_main ::
  "(request \<Rightarrow> message option) \<Rightarrow> (bytes \<Rightarrow> bool) \<Rightarrow> message list \<Rightarrow> request list list" where
  "spec_client_main net decodes notifications =
     (case net observe_last of
        None \<Rightarrow> [[observe_last]]
      | Some r \<Rightarrow>
          (if \<not> decodes (payload r) then [[observe_last]]
           else [observe_last]
                # map (handle_notification net) (spec_fresh (observe r) notifications)))"

section \<open>Message-bus classifier (motion-classification/main.py)\<close>

record mqtt_message =
  topic :: string
  mpayload :: bytes

text \<open>\<^verbatim>\<open>str.split(sep)\<close> with a one-character separator.\<close>

fun split_on :: "char \<Rightarrow> string \<Rightarrow> string list" where
  "split_on sep [] = [[]]"
| "split_on sep (c # cs) =
     (if c = sep then [] # split_on sep cs
      else (case split_on sep cs of
              [] \<Rightarrow> [[c]]
            | p # ps \<Rightarrow> (c # p) # ps))"

text \<open>\<^verbatim>\<open>cam_id = parts[2] if len(parts) >= 4 else "unknown"\<close>\<close>

definition cam_id_of :: "string \<Rightarrow> string" where
  "cam_id_of tp = (let parts = split_on CHR ''/'' tp
                   in if 4 \<le> length parts then parts ! 2 else ''unknown'')"

text \<open>\<^verbatim>\<open>TOPIC_OUT_FMT.format(id=cam_id)\<close> with the default format.\<close>

definition out_topic_of :: "string \<Rightarrow> string" where
  "out_topic_of cam_id = ''motion/device/'' @ cam_id @ ''/class''"

text \<open>
  \<^verbatim>\<open>classify_bgr\<close>. The face detector is a parameter: the number of faces found, or an
  exception.
\<close>

definition classify_bgr :: "(frame \<Rightarrow> error + nat) \<Rightarrow> frame option \<Rightarrow> error + string" where
  "classify_bgr detect img_bgr =
     (case img_bgr of
        None \<Rightarrow> Inr ''unknown''
      | Some im \<Rightarrow>
          (if array_size im = 0 then Inr ''unknown''
           else (case detect im of
                   Inl e \<Rightarrow> Inl e
                 | Inr faces \<Rightarrow> Inr (if 0 < faces then ''person'' else ''unknown''))))"

text \<open>
  \<^verbatim>\<open>on_message\<close>: the labels published while handling one message (topic and label).
  The decoder \<^verbatim>\<open>cv2.imdecode\<close> and \<^verbatim>\<open>client.publish\<close> are parameters that may raise;
  whatever is raised is caught by the handler.
\<close>

definition on_message ::
  "(bytes \<Rightarrow> error + frame option) \<Rightarrow> (frame \<Rightarrow> error + nat) \<Rightarrow> (string \<Rightarrow> string \<Rightarrow> error + unit)
     \<Rightarrow> mqtt_message \<Rightarrow> (string \<times> string) list" where
  "on_message imdecode detect publish msg =
     (let cam_id = cam_id_of (topic msg)
      in case imdecode (mpayload msg) of
           Inl e \<Rightarrow> []
         | Inr im \<Rightarrow>
             (case classify_bgr detect im of
                Inl e \<Rightarrow> []
              | Inr lbl \<Rightarrow>
                  (let out_topic = out_topic_of cam_id
                   in case publish out_topic lbl of
                        Inl e \<Rightarrow> []
                      | Inr u \<Rightarrow> [(out_topic, lbl)])))"

text \<open>\<^verbatim>\<open>loop_forever\<close> hands each message received to \<^verbatim>\<open>on_message\<close> in turn.\<close>

fun deliver ::
  "(bytes \<Rightarrow> error + frame option) \<Rightarrow> (frame \<Rightarrow> error + nat) \<Rightarrow> (string \<Rightarrow> string \<Rightarrow> error + unit)
     \<Rightarrow> (string \<times> string) list \<Rightarrow> mqtt_message list \<Rightarrow> (string \<times> string) list" where
  "deliver imdecode detect publish published [] = published"
| "deliver imdecode detect publish published (m # ms) =
     deliver imdecode detect publish (published @ on_message imdecode detect publish m) ms"

section \<open>Concrete inputs\<close>

text \<open>The configuration of \<^verbatim>\<open>run.py\<close>, a camera frame, and readings with and without motion.\<close>

definition run_cfg :: config where
  "run_cfg = \<lparr>min_contour_area = 2500, pad_ratio = 12 / 100, show_windows = True,
               cooldown = 1, quiet = 3\<rparr>"

definition cam_frame :: frame where
  "cam_frame = \<lparr>height = 480, width = 640, pixel = (\<lambda>i j. 0)\<rparr>"

definition walker :: contour where
  "walker = \<lparr>area = 3000, bounding = (100, 100, 60, 50)\<rparr>"

definition seen :: "real \<Rightarrow> reading" where
  "seen t = \<lparr>ok = True, img = cam_frame, cnts = [walker], now = t, key = -1\<rparr>"

definition blank :: "real \<Rightarrow> reading" where
  "blank t = \<lparr>ok = True, img = cam_frame, cnts = [], now = t, key = -1\<rparr>"

text \<open>Resources with two observers registered, and the identity as string encoder.\<close>

definition watched_motion :: motion_resource where
  "watched_motion = \<lparr>sequence = 4, subscribers = [1, 2], outbox = [], motion = ''false''\<rparr>"

definition watched_last :: last_detection_resource where
  "watched_last = \<lparr>sequence = 2, subscribers = [1, 2], outbox = [],
                    ts = ''2025-01-31_12-00-00''\<rparr>"

definition watched_class :: class_resource where
  "watched_class = \<lparr>sequence = 2, subscribers = [1, 2], outbox = [], label = ''person''\<rparr>"

definition ascii :: "string \<Rightarrow> bytes" where
  "ascii s = s"

text \<open>
  The site after an earlier rise, a two by two crop, an encoder that succeeds and one
  that reports failure.
\<close>

definition earlier_site :: site where
  "earlier_site = \<lparr>motion_res = watched_motion, last_res = watched_last,
                    image_res = \<lparr>jpeg = ''JPEG-1''\<rparr>, class_res = watched_class\<rparr>"

definition snapshot :: frame where
  "snapshot = \<lparr>height = 2, width = 2, pixel = (\<lambda>i j. 7)\<rparr>"

definition encoder_ok :: "frame \<Rightarrow> bytes option" where
  "encoder_ok c = Some ''JPEG-2''"

definition encoder_fails :: "frame \<Rightarrow> bytes option" where
  "encoder_fails c = None"

text \<open>
  A camera that answers every request of the client, a notification of
  \<open>lastdetection\<close> with a given sequence number, and a decoder that accepts everything.
\<close>

definition camera_net :: "request \<Rightarrow> message option" where
  "camera_net q =
     (if uri q = PATH_LAST
      then Some \<lparr>mcode = None, payload = ''2025-01-31_12-00-00'',
                 content_format = Some text_plain, observe = Some 2\<rparr>
      else if uri q = PATH_IMAGE
      then Some \<lparr>mcode = None, payload = ''JPEG-1'', content_format = Some image_jpeg,
                 observe = None\<rparr>
      else Some \<lparr>mcode = Some CHANGED, payload = ''ok'', content_format = None,
                 observe = None\<rparr>)"

definition notification :: "nat \<Rightarrow> message" where
  "notification n = \<lparr>mcode = None, payload = ''2025-01-31_12-00-05'',
                      content_format = Some text_plain, observe = Some n\<rparr>"

definition decodes_all :: "bytes \<Rightarrow> bool" where
  "decodes_all b = True"

text \<open>
  For the message-bus path: a decoder that raises on an empty buffer, decodes one known
  payload and returns \<^verbatim>\<open>None\<close> for anything else; a detector that finds one face; a
  broker that accepts every publication; and two messages from camera \<open>cam7\<close>.
\<close>

definition cv_decode :: "bytes \<Rightarrow> error + frame option" where
  "cv_decode b = (if b = [] then Inl Exception
                  else if b = ''JPEG-1'' then Inr (Some snapshot) else Inr None)"

definition one_face :: "frame \<Rightarrow> error + nat" where
  "one_face f = Inr 1"

definition broker_ok :: "string \<Rightarrow> string \<Rightarrow> error + unit" where
  "broker_ok t l = Inr ()"

definition good_message :: mqtt_message where
  "good_message = \<lparr>topic = ''motion/device/cam7/image'', mpayload = ''JPEG-1''\<rparr>"

definition empty_message :: mqtt_message where
  "empty_message = \<lparr>topic = ''motion/device/cam7/image'', mpayload = []\<rparr>"

definition episode :: "reading list" where
  "episode = [seen 100, seen (201 / 2), blank 101, blank (518 / 5), seen (521 / 5)]"

section \<open>Properties of the motion detector\<close>

subsection \<open>Rising edges\<close>

lemma iteration_rise_iff:
  "(\<exists>c. Rise c \<in> set (snd (iteration cfg s r))) = rise_guard cfg s r"
  by (auto simp: iteration_def rising_edge_def falling_edge_def see_motion_def rise_guard_def
      Let_def split: prod.splits if_splits)

lemma iteration_last_rise:
  "last_rise_ts (fst (iteration cfg s r)) = (if rise_guard cfg s r then now r else last_rise_ts s)"
  by (auto simp: iteration_def rising_edge_def falling_edge_def see_motion_def rise_guard_def
      Let_def split: prod.splits if_splits)

lemma iteration_rise_times:
  "rise_times (map (Pair t) (snd (iteration cfg s r))) = (if rise_guard cfg s r then [t] else [])"
  by (auto simp: iteration_def rising_edge_def falling_edge_def see_motion_def rise_guard_def
      rise_times_def Let_def split: prod.splits if_splits)

lemma rise_times_append: "rise_times (xs @ ys) = rise_times xs @ rise_times ys"
  by (simp add: rise_times_def)

lemma rise_guard_cooldown: "rise_guard cfg s r \<Longrightarrow> cooldown cfg \<le> now r - last_rise_ts s"
  by (simp add: rise_guard_def)

lemma loop_rises_spaced:
  "successively (\<lambda>a b. cooldown cfg \<le> b - a) (last_rise_ts s # rise_times (snd (loop cfg s rs)))"
proof (induction rs arbitrary: s)
  case Nil
  show ?case by (simp add: rise_times_def)
next
  case (Cons r rs)
  obtain s' evs where it: "iteration cfg s r = (s', evs)" by (cases "iteration cfg s r")
  obtain s'' rest where lp: "loop cfg s' rs = (s'', rest)" by (cases "loop cfg s' rs")
  have lr: "last_rise_ts s' = (if rise_guard cfg s r then now r else last_rise_ts s)"
    using iteration_last_rise[of cfg s r] it by simp
  have rt: "rise_times (map (Pair (now r)) evs) = (if rise_guard cfg s r then [now r] else [])"
    using iteration_rise_times[of "now r" cfg s r] it by simp
  have ih: "successively (\<lambda>a b. cooldown cfg \<le> b - a) (last_rise_ts s' # rise_times rest)"
    using Cons.IH[of s'] lp by simp
  show ?case
  proof (cases "ok r")
    case False
    then show ?thesis by (simp add: rise_times_def)
  next
    case True
    show ?thesis
    proof (cases "show_windows cfg \<and> key r AND 0xFF = 27")
      case True
      with \<open>ok r\<close> it rt show ?thesis
        by (auto dest: rise_guard_cooldown)
    next
      case False
      with \<open>ok r\<close> it lp rt lr ih show ?thesis
        by (auto simp: rise_times_append dest: rise_guard_cooldown)
    qed
  qed
qed

lemma spaced_sorted_wrt:
  fixes c :: real
  assumes "0 \<le> c" and "successively (\<lambda>a b. c \<le> b - a) xs"
  shows "sorted_wrt (\<lambda>a b. c \<le> b - a) xs"
proof -
  have "successively (\<lambda>a b. c \<le> b - a) xs = sorted_wrt (\<lambda>a b. c \<le> b - a) xs"
    by (rule successively_iff_sorted_wrt_strong) (use assms(1) in linarith)
  with assms(2) show ?thesis by simp
qed

lemma episode_rises: "rise_times (snd (loop run_cfg init_detector episode)) = [100, 521 / 5]"
  by code_simp

text \<open>
  C1. A pass of the loop calls \<^verbatim>\<open>on_rise\<close> exactly when the detector is quiet, motion
  is present on the frame and at least \<open>cooldown\<close> has passed since \<open>last_rise_ts\<close>; the
  pass then sets \<open>last_rise_ts\<close> to its clock value, and otherwise leaves it. Hence, for
  every sequence of readings and every start state, each rise comes at least
  \<open>cooldown\<close> after the rise before it, and with a non-negative cooldown any two rises
  of a run are at least \<open>cooldown\<close> apart.
\<close>

theorem rise_cooldown:
  "(\<exists>c. Rise c \<in> set (snd (iteration cfg s r)))
     = (\<not> motion_on s \<and> motion_now cfg r \<and> cooldown cfg \<le> now r - last_rise_ts s)
   \<and> last_rise_ts (fst (iteration cfg s r))
     = (if \<exists>c. Rise c \<in> set (snd (iteration cfg s r)) then now r else last_rise_ts s)
   \<and> successively (\<lambda>a b. cooldown cfg \<le> b - a) (rise_times (snd (loop cfg s rs)))
   \<and> (0 \<le> cooldown cfg \<longrightarrow>
        sorted_wrt (\<lambda>a b. cooldown cfg \<le> b - a) (rise_times (snd (loop cfg s rs))))"
proof -
  have a: "(\<exists>c. Rise c \<in> set (snd (iteration cfg s r)))
     = (\<not> motion_on s \<and> motion_now cfg r \<and> cooldown cfg \<le> now r - last_rise_ts s)"
    using iteration_rise_iff[of cfg s r] by (simp add: rise_guard_def)
  have b: "last_rise_ts (fst (iteration cfg s r))
     = (if \<exists>c. Rise c \<in> set (snd (iteration cfg s r)) then now r else last_rise_ts s)"
    using iteration_last_rise[of cfg s r] iteration_rise_iff[of cfg s r] by simp
  have c: "successively (\<lambda>a b. cooldown cfg \<le> b - a) (rise_times (snd (loop cfg s rs)))"
    using loop_rises_spaced[of cfg s rs] by (auto simp: successively_Cons)
  have d: "0 \<le> cooldown cfg \<longrightarrow>
        sorted_wrt (\<lambda>a b. cooldown cfg \<le> b - a) (rise_times (snd (loop cfg s rs)))"
    using c spaced_sorted_wrt by blast
  from a b c d show ?thesis by blast
qed

text \<open>
  The run of \<^verbatim>\<open>run.py\<close>'s configuration on the example episode: rises at 100 and at
  104.2, with a fall at 103.6 in between.
\<close>

theorem rise_cooldown_witness:
  "0 \<le> cooldown run_cfg
   \<and> rise_times (snd (loop run_cfg init_detector episode)) = [100, 521 / 5]
   \<and> sorted_wrt (\<lambda>a b. cooldown run_cfg \<le> b - a) (rise_times (snd (loop run_cfg init_detector episode)))"
proof -
  have h: "0 \<le> cooldown run_cfg" by (simp add: run_cfg_def)
  from rise_cooldown[of run_cfg init_detector "seen 100" episode] h
  have "sorted_wrt (\<lambda>a b. cooldown run_cfg \<le> b - a) (rise_times (snd (loop run_cfg init_detector episode)))"
    by blast
  with h episode_rises show ?thesis by simp
qed

subsection \<open>The crop handed to the rise callback\<close>

lemma largest_contour_from_found:
  "(largest_contour_from best ba cs m \<noteq> None) =
     (best \<noteq> None \<or> (\<exists>c \<in> set cs. m < area c \<and> ba < area c))"
  by (induction cs arbitrary: best ba) auto

lemma motion_now_iff:
  "motion_now cfg r = (\<exists>c \<in> set (cnts r). min_contour_area cfg < area c \<and> 0 < area c)"
  using largest_contour_from_found[of None 0 "cnts r" "min_contour_area cfg"]
  by (simp add: motion_now_def largest_contour_def)

lemma iteration_rise_crop:
  assumes "Rise c \<in> set (snd (iteration cfg s r))"
  shows "\<exists>big. largest_contour (cnts r) (min_contour_area cfg) = Some big
           \<and> c = Some (fst (crop_with_pad cfg (img r) (bounding big)))"
  using assms
  by (auto simp: iteration_def rising_edge_def falling_edge_def rise_guard_def motion_now_def
      Let_def split: prod.splits if_splits option.splits)

lemma iteration_crop_present: "Rise None \<notin> set (snd (iteration cfg s r))"
  using iteration_rise_crop[of None cfg s r] by blast

lemma loop_crop_present: "(t, Rise None) \<notin> set (snd (loop cfg s rs))"
proof (induction rs arbitrary: s)
  case Nil
  show ?case by simp
next
  case (Cons r rs)
  obtain s' evs where it: "iteration cfg s r = (s', evs)" by (cases "iteration cfg s r")
  obtain s'' rest where lp: "loop cfg s' rs = (s'', rest)" by (cases "loop cfg s' rs")
  have a: "Rise None \<notin> set evs" using iteration_crop_present[of cfg s r] it by simp
  have b: "(t, Rise None) \<notin> set rest" using Cons.IH[of s'] lp by simp
  show ?case using it lp a b by (auto simp: Let_def)
qed

lemma crop_corners_bounds:
  assumes "0 \<le> x" "0 \<le> y" "0 \<le> w" "0 \<le> h"
    and "x + w \<le> int (width fr)" "y + h \<le> int (height fr)"
    and "0 \<le> pad_of cfg (x, y, w, h)"
    and "crop_corners cfg fr (x, y, w, h) = (x0, y0, x1, y1)"
  shows "0 \<le> x0 \<and> x0 \<le> x1 \<and> x1 \<le> int (width fr) \<and> 0 \<le> y0 \<and> y0 \<le> y1 \<and> y1 \<le> int (height fr)"
  using assms by (auto simp: crop_corners_def Let_def)

lemma slice_bound_inside: "0 \<le> i \<Longrightarrow> i \<le> int n \<Longrightarrow> slice_bound i n = nat i"
  by (auto simp: slice_bound_def)

lemma slice2_inside:
  assumes "0 \<le> x0" "x0 \<le> x1" "x1 \<le> int (width fr)" "0 \<le> y0" "y0 \<le> y1" "y1 \<le> int (height fr)"
  shows "slice2 fr y0 y1 x0 x1 =
     \<lparr>height = nat (y1 - y0), width = nat (x1 - x0),
      pixel = (\<lambda>i j. pixel fr (nat y0 + i) (nat x0 + j))\<rparr>"
proof -
  have "slice_bound y0 (height fr) = nat y0" "slice_bound y1 (height fr) = nat y1"
       "slice_bound x0 (width fr) = nat x0" "slice_bound x1 (width fr) = nat x1"
    using assms by (auto intro: slice_bound_inside)
  moreover have "nat y1 - nat y0 = nat (y1 - y0)" "nat x1 - nat x0 = nat (x1 - x0)"
    using assms by auto
  ultimately show ?thesis by (simp add: slice2_def Let_def)
qed

lemma pad_of_nonneg:
  "0 \<le> pad_ratio cfg \<Longrightarrow> 0 \<le> w \<or> 0 \<le> h \<Longrightarrow> 0 \<le> pad_of cfg (x, y, w, h)"
  by (auto simp: pad_of_def py_int_def)

lemma crop_with_pad_inside:
  assumes "0 \<le> x" "0 \<le> y" "0 \<le> w" "0 \<le> h"
    and "x + w \<le> int (width fr)" "y + h \<le> int (height fr)"
    and "0 \<le> pad_of cfg (x, y, w, h)"
  shows "case crop_with_pad cfg fr (x, y, w, h) of (crop, (x0, y0, x1, y1)) \<Rightarrow>
           0 \<le> x0 \<and> x0 \<le> x1 \<and> x1 \<le> int (width fr) \<and> 0 \<le> y0 \<and> y0 \<le> y1 \<and> y1 \<le> int (height fr)
           \<and> crop = \<lparr>height = nat (y1 - y0), width = nat (x1 - x0),
                      pixel = (\<lambda>i j. pixel fr (nat y0 + i) (nat x0 + j))\<rparr>"
proof -
  obtain x0 y0 x1 y1 where cc: "crop_corners cfg fr (x, y, w, h) = (x0, y0, x1, y1)"
    by (cases "crop_corners cfg fr (x, y, w, h)") auto
  have b: "0 \<le> x0 \<and> x0 \<le> x1 \<and> x1 \<le> int (width fr) \<and> 0 \<le> y0 \<and> y0 \<le> y1 \<and> y1 \<le> int (height fr)"
    using crop_corners_bounds[OF assms cc] .
  then have "slice2 fr y0 y1 x0 x1 =
     \<lparr>height = nat (y1 - y0), width = nat (x1 - x0),
      pixel = (\<lambda>i j. pixel fr (nat y0 + i) (nat x0 + j))\<rparr>"
    by (intro slice2_inside) auto
  with b cc show ?thesis by (simp add: crop_with_pad_def)
qed

lemma walker_pad: "pad_of run_cfg (100, 100, 60, 50) = 7"
  by (simp add: pad_of_def py_int_def run_cfg_def)

lemma walker_corners: "crop_corners run_cfg cam_frame (100, 100, 60, 50) = (93, 93, 167, 157)"
  by (simp add: crop_corners_def walker_pad cam_frame_def Let_def)

text \<open>
  C10. Every \<^verbatim>\<open>on_rise\<close> call of a run carries a crop: the call is made only when a
  largest contour was found, and the crop is cut around its bounding rectangle. Motion is
  present on a frame exactly when some contour has an area above both \<open>min_contour_area\<close>
  and zero. For a rectangle inside the frame and a non-negative pad, the corners satisfy
  \<open>0 \<le> x0 \<le> x1 \<le> W\<close> and \<open>0 \<le> y0 \<le> y1 \<le> H\<close>, and the crop is the sub-image of the
  frame between them.
\<close>

theorem rise_crop_present:
  "(t, Rise None) \<notin> set (snd (loop cfg s rs))
   \<and> (Rise c \<in> set (snd (iteration cfg s r)) \<longrightarrow>
        (\<exists>big. largest_contour (cnts r) (min_contour_area cfg) = Some big
           \<and> c = Some (fst (crop_with_pad cfg (img r) (bounding big)))))
   \<and> motion_now cfg r = (\<exists>c \<in> set (cnts r). min_contour_area cfg < area c \<and> 0 < area c)
   \<and> (0 \<le> x \<and> 0 \<le> y \<and> 0 \<le> w \<and> 0 \<le> h \<and> x + w \<le> int (width fr) \<and> y + h \<le> int (height fr)
        \<and> 0 \<le> pad_of cfg (x, y, w, h) \<longrightarrow>
      (case crop_with_pad cfg fr (x, y, w, h) of (crop, (x0, y0, x1, y1)) \<Rightarrow>
           0 \<le> x0 \<and> x0 \<le> x1 \<and> x1 \<le> int (width fr) \<and> 0 \<le> y0 \<and> y0 \<le> y1 \<and> y1 \<le> int (height fr)
           \<and> crop = \<lparr>height = nat (y1 - y0), width = nat (x1 - x0),
                      pixel = (\<lambda>i j. pixel fr (nat y0 + i) (nat x0 + j))\<rparr>))"
proof (intro conjI impI)
  show "(t, Rise None) \<notin> set (snd (loop cfg s rs))"
    by (rule loop_crop_present)
  show "\<exists>big. largest_contour (cnts r) (min_contour_area cfg) = Some big
           \<and> c = Some (fst (crop_with_pad cfg (img r) (bounding big)))"
    if "Rise c \<in> set (snd (iteration cfg s r))"
    using that by (rule iteration_rise_crop)
  show "motion_now cfg r = (\<exists>c \<in> set (cnts r). min_contour_area cfg < area c \<and> 0 < area c)"
    by (rule motion_now_iff)
  show "case crop_with_pad cfg fr (x, y, w, h) of (crop, (x0, y0, x1, y1)) \<Rightarrow>
           0 \<le> x0 \<and> x0 \<le> x1 \<and> x1 \<le> int (width fr) \<and> 0 \<le> y0 \<and> y0 \<le> y1 \<and> y1 \<le> int (height fr)
           \<and> crop = \<lparr>height = nat (y1 - y0), width = nat (x1 - x0),
                      pixel = (\<lambda>i j. pixel fr (nat y0 + i) (nat x0 + j))\<rparr>"
    if "0 \<le> x \<and> 0 \<le> y \<and> 0 \<le> w \<and> 0 \<le> h \<and> x + w \<le> int (width fr) \<and> y + h \<le> int (height fr)
        \<and> 0 \<le> pad_of cfg (x, y, w, h)"
    using that by (intro crop_with_pad_inside) simp_all
qed

text \<open>
  The walker's rectangle \<open>(100, 100, 60, 50)\<close> in a 640 by 480 frame, pad 7: the crop is the
  74 by 64 window with corners \<open>(93, 93)\<close> and \<open>(167, 157)\<close>; and the first pass of the
  example episode hands a crop to the callback.
\<close>

theorem rise_crop_present_witness:
  "0 \<le> pad_of run_cfg (100, 100, 60, 50)
   \<and> 100 + 60 \<le> int (width cam_frame) \<and> 100 + 50 \<le> int (height cam_frame)
   \<and> snd (crop_with_pad run_cfg cam_frame (100, 100, 60, 50)) = (93, 93, 167, 157)
   \<and> height (fst (crop_with_pad run_cfg cam_frame (100, 100, 60, 50))) = 64
   \<and> width (fst (crop_with_pad run_cfg cam_frame (100, 100, 60, 50))) = 74
   \<and> (\<exists>c. Rise (Some c) \<in> set (snd (iteration run_cfg init_detector (seen 100))))"
proof -
  have h: "(0::int) \<le> 100 \<and> (0::int) \<le> 100 \<and> (0::int) \<le> 60 \<and> (0::int) \<le> 50
      \<and> 100 + 60 \<le> int (width cam_frame) \<and> 100 + 50 \<le> int (height cam_frame)
      \<and> 0 \<le> pad_of run_cfg (100, 100, 60, 50)"
    by (simp add: walker_pad cam_frame_def)
  have r: "Rise (Some (fst (crop_with_pad run_cfg (img (seen 100)) (bounding walker))))
      \<in> set (snd (iteration run_cfg init_detector (seen 100)))"
    by (simp add: iteration_def see_motion_def rising_edge_def falling_edge_def rise_guard_def
        motion_now_def largest_contour_def seen_def run_cfg_def walker_def init_detector_def Let_def)
  have "case crop_with_pad run_cfg cam_frame (100, 100, 60, 50) of (crop, (x0, y0, x1, y1)) \<Rightarrow>
           0 \<le> x0 \<and> x0 \<le> x1 \<and> x1 \<le> int (width cam_frame) \<and> 0 \<le> y0 \<and> y0 \<le> y1
           \<and> y1 \<le> int (height cam_frame)
           \<and> crop = \<lparr>height = nat (y1 - y0), width = nat (x1 - x0),
                      pixel = (\<lambda>i j. pixel cam_frame (nat y0 + i) (nat x0 + j))\<rparr>"
    by (rule rise_crop_present[of 100 run_cfg init_detector episode None "seen 100"
          100 100 60 50 cam_frame, THEN conjunct2, THEN conjunct2, THEN conjunct2, THEN mp, OF h])
  then have "height (fst (crop_with_pad run_cfg cam_frame (100, 100, 60, 50))) = 64
      \<and> width (fst (crop_with_pad run_cfg cam_frame (100, 100, 60, 50))) = 74
      \<and> snd (crop_with_pad run_cfg cam_frame (100, 100, 60, 50)) = (93, 93, 167, 157)"
    by (simp add: crop_with_pad_def walker_corners)
  with h r show ?thesis by blast
qed

subsection \<open>Falling edges\<close>

lemma iteration_fall_iff:
  "(Fall \<in> set (snd (iteration cfg s r)))
     = ((motion_on s \<or> rise_guard cfg s r)
        \<and> quiet cfg \<le> now r - (if motion_now cfg r then now r else last_motion_seen_ts s))"
  by (auto simp: iteration_def rising_edge_def falling_edge_def see_motion_def rise_guard_def
      Let_def split: prod.splits if_splits)

lemma iteration_motion_on:
  "motion_on (fst (iteration cfg s r))
     = ((motion_on s \<or> rise_guard cfg s r) \<and> Fall \<notin> set (snd (iteration cfg s r)))"
  by (auto simp: iteration_def rising_edge_def falling_edge_def see_motion_def rise_guard_def
      Let_def split: prod.splits if_splits)

lemma iteration_last_seen:
  "last_motion_seen_ts (fst (iteration cfg s r))
     = (if motion_now cfg r then now r else last_motion_seen_ts s)"
  by (auto simp: iteration_def rising_edge_def falling_edge_def see_motion_def rise_guard_def
      Let_def split: prod.splits if_splits)

lemma after_rise_append:
  "after_rise (tr @ map (Pair t) evs) = (if evs = [] then after_rise tr else is_rise (last evs))"
  by (cases evs rule: rev_cases) (auto simp: after_rise_def)

lemma iteration_after_rise:
  "motion_on (fst (iteration cfg s r))
     = (if snd (iteration cfg s r) = [] then motion_on s else is_rise (last (snd (iteration cfg s r))))"
  by (auto simp: iteration_def rising_edge_def falling_edge_def see_motion_def rise_guard_def
      Let_def split: prod.splits if_splits)

lemma loop_Cons_continues:
  assumes "continues cfg q"
  shows "loop cfg s (q # rs) =
     (fst (loop cfg (fst (iteration cfg s q)) rs),
      map (Pair (now q)) (snd (iteration cfg s q)) @ snd (loop cfg (fst (iteration cfg s q)) rs))"
proof -
  have "ok q" and "\<not> (show_windows cfg \<and> key q AND 0xFF = 27)"
    using assms by (simp_all add: continues_def)
  then show ?thesis by (auto simp: Let_def split: prod.splits)
qed

lemma loop_single:
  assumes "ok r"
  shows "loop cfg s [r] = (fst (iteration cfg s r), map (Pair (now r)) (snd (iteration cfg s r)))"
  using assms by (simp add: Let_def split: prod.splits)

lemma loop_snoc:
  assumes "list_all (continues cfg) rs" and "ok r"
  shows "loop cfg s (rs @ [r]) =
     (fst (iteration cfg (fst (loop cfg s rs)) r),
      snd (loop cfg s rs) @ map (Pair (now r)) (snd (iteration cfg (fst (loop cfg s rs)) r)))"
  using assms
proof (induction rs arbitrary: s)
  case Nil
  then show ?case using loop_single[of r cfg s] by simp
next
  case (Cons q qs)
  have cq: "continues cfg q" and cqs: "list_all (continues cfg) qs"
    using Cons.prems(1) by simp_all
  show ?case
    using Cons.IH[OF cqs Cons.prems(2)] loop_Cons_continues[OF cq]
    by (simp del: loop.simps)
qed

lemma since_motion_snoc:
  "since_motion cfg (rs @ [r]) = (if motion_now cfg r then Some (now r) else since_motion cfg rs)"
  by (auto simp: since_motion_def split: list.splits)

lemma loop_invariants:
  assumes "list_all (continues cfg) rs"
  shows "motion_on (fst (loop cfg init_detector rs)) = after_rise (snd (loop cfg init_detector rs))
       \<and> (motion_on (fst (loop cfg init_detector rs)) \<longrightarrow> since_motion cfg rs \<noteq> None)
       \<and> (\<forall>t. since_motion cfg rs = Some t \<longrightarrow> last_motion_seen_ts (fst (loop cfg init_detector rs)) = t)"
  using assms
proof (induction rs rule: rev_induct)
  case Nil
  show ?case by (simp add: init_detector_def after_rise_def since_motion_def)
next
  case (snoc r rs)
  have c1: "list_all (continues cfg) rs" and cr: "continues cfg r" using snoc.prems by simp_all
  have c: "list_all (continues cfg) rs" "ok r" using c1 cr by (simp_all add: continues_def)
  let ?s = "fst (loop cfg init_detector rs)"
  let ?tr = "snd (loop cfg init_detector rs)"
  have ih: "motion_on ?s = after_rise ?tr" "motion_on ?s \<longrightarrow> since_motion cfg rs \<noteq> None"
    "\<forall>t. since_motion cfg rs = Some t \<longrightarrow> last_motion_seen_ts ?s = t"
    using snoc.IH[OF c(1)] by auto
  have sn: "loop cfg init_detector (rs @ [r]) =
     (fst (iteration cfg ?s r), ?tr @ map (Pair (now r)) (snd (iteration cfg ?s r)))"
    using loop_snoc[OF c] .
  have a: "motion_on (fst (iteration cfg ?s r))
      = after_rise (?tr @ map (Pair (now r)) (snd (iteration cfg ?s r)))"
    using iteration_after_rise[of cfg ?s r] ih(1) by (simp add: after_rise_append)
  have b: "motion_on (fst (iteration cfg ?s r)) \<longrightarrow> since_motion cfg (rs @ [r]) \<noteq> None"
    using iteration_motion_on[of cfg ?s r] ih(2)
    by (auto simp: since_motion_snoc rise_guard_def)
  have d: "\<forall>t. since_motion cfg (rs @ [r]) = Some t \<longrightarrow> last_motion_seen_ts (fst (iteration cfg ?s r)) = t"
    using iteration_last_seen[of cfg ?s r] ih(3) by (auto simp: since_motion_snoc)
  from a b d show ?case unfolding sn by simp
qed

lemma loop_fall_iff:
  assumes "list_all (continues cfg) rs"
  shows "(Fall \<in> set (snd (iteration cfg (fst (loop cfg init_detector rs)) r)))
     = ((after_rise (snd (loop cfg init_detector rs))
          \<or> (\<exists>c. Rise c \<in> set (snd (iteration cfg (fst (loop cfg init_detector rs)) r))))
        \<and> (\<exists>t. since_motion cfg (rs @ [r]) = Some t \<and> quiet cfg \<le> now r - t))"
proof -
  let ?s = "fst (loop cfg init_detector rs)"
  note inv = loop_invariants[OF assms]
  have rg: "(\<exists>c. Rise c \<in> set (snd (iteration cfg ?s r))) = rise_guard cfg ?s r"
    by (auto simp: iteration_def rising_edge_def falling_edge_def see_motion_def rise_guard_def
      Let_def split: prod.splits if_splits)
  show ?thesis
  proof (cases "motion_now cfg r")
    case True
    then show ?thesis using inv rg iteration_fall_iff[of cfg ?s r]
      by (simp add: since_motion_snoc)
  next
    case False
    then have nr: "\<not> rise_guard cfg ?s r" by (simp add: rise_guard_def)
    show ?thesis
    proof (cases "motion_on ?s")
      case True
      then obtain t where t: "since_motion cfg rs = Some t" using inv by auto
      then have "last_motion_seen_ts ?s = t" using inv by auto
      then show ?thesis using True False t inv rg nr iteration_fall_iff[of cfg ?s r]
        by (simp add: since_motion_snoc)
    next
      case False
      then show ?thesis using inv rg nr iteration_fall_iff[of cfg ?s r]
        by simp
    qed
  qed
qed


lemma quiet_prefix_continues:
  "list_all (continues run_cfg) [seen 100, seen (201 / 2), blank 101]"
  by code_simp

lemma quiet_prefix_after_rise:
  "after_rise (snd (loop run_cfg init_detector [seen 100, seen (201 / 2), blank 101]))"
  by code_simp

lemma quiet_prefix_since:
  "since_motion run_cfg ([seen 100, seen (201 / 2), blank 101] @ [blank (518 / 5)]) = Some (201 / 2)"
  by code_simp

text \<open>
  C2. A pass calls \<^verbatim>\<open>on_fall\<close> exactly when the detector is active at that point (it was
  active before the pass, or the pass has just risen) and at least \<open>quiet\<close> lies between
  the clock and \<open>last_motion_seen_ts\<close>; that field is set on every frame with motion,
  whatever the state, and \<open>last_rise_ts\<close> plays no part. Over a run from the initial state:
  after readings that all let the loop go on, the next pass calls \<^verbatim>\<open>on_fall\<close> if and only if
  the last callback so far was a rise (or this pass rises) and the clock is at least
  \<open>quiet\<close> past the last frame on which motion was present; the pass's callbacks are
  appended to the trace of the run.
\<close>

theorem fall_after_quiet:
  "(Fall \<in> set (snd (iteration cfg s r)))
     = ((motion_on s \<or> (\<exists>c. Rise c \<in> set (snd (iteration cfg s r))))
        \<and> quiet cfg \<le> now r - last_motion_seen_ts (fst (iteration cfg s r)))
   \<and> last_motion_seen_ts (fst (iteration cfg s r))
     = (if motion_now cfg r then now r else last_motion_seen_ts s)
   \<and> (list_all (continues cfg) rs \<and> ok r \<longrightarrow>
        snd (loop cfg init_detector (rs @ [r]))
          = snd (loop cfg init_detector rs)
            @ map (Pair (now r)) (snd (iteration cfg (fst (loop cfg init_detector rs)) r))
        \<and> (Fall \<in> set (snd (iteration cfg (fst (loop cfg init_detector rs)) r)))
          = ((after_rise (snd (loop cfg init_detector rs))
               \<or> (\<exists>c. Rise c \<in> set (snd (iteration cfg (fst (loop cfg init_detector rs)) r))))
             \<and> (\<exists>t. since_motion cfg (rs @ [r]) = Some t \<and> quiet cfg \<le> now r - t)))"
proof (intro conjI impI)
  have rg: "(\<exists>c. Rise c \<in> set (snd (iteration cfg s r))) = rise_guard cfg s r"
    by (auto simp: iteration_def rising_edge_def falling_edge_def see_motion_def rise_guard_def
      Let_def split: prod.splits if_splits)
  show "(Fall \<in> set (snd (iteration cfg s r)))
     = ((motion_on s \<or> (\<exists>c. Rise c \<in> set (snd (iteration cfg s r))))
        \<and> quiet cfg \<le> now r - last_motion_seen_ts (fst (iteration cfg s r)))"
    unfolding rg iteration_last_seen by (rule iteration_fall_iff)
  show "last_motion_seen_ts (fst (iteration cfg s r))
     = (if motion_now cfg r then now r else last_motion_seen_ts s)"
    by (rule iteration_last_seen)
next
  assume h: "list_all (continues cfg) rs \<and> ok r"
  then show "snd (loop cfg init_detector (rs @ [r]))
          = snd (loop cfg init_detector rs)
            @ map (Pair (now r)) (snd (iteration cfg (fst (loop cfg init_detector rs)) r))"
    using loop_snoc[of cfg rs r init_detector] by simp
next
  assume h: "list_all (continues cfg) rs \<and> ok r"
  then show "(Fall \<in> set (snd (iteration cfg (fst (loop cfg init_detector rs)) r)))
          = ((after_rise (snd (loop cfg init_detector rs))
               \<or> (\<exists>c. Rise c \<in> set (snd (iteration cfg (fst (loop cfg init_detector rs)) r))))
             \<and> (\<exists>t. since_motion cfg (rs @ [r]) = Some t \<and> quiet cfg \<le> now r - t))"
    using loop_fall_iff[of cfg rs r] by blast
qed

text \<open>
  In the example episode motion is last seen at 100.5; the pass at 103.6, more than
  three seconds later, calls \<^verbatim>\<open>on_fall\<close>.
\<close>

theorem fall_after_quiet_witness:
  "list_all (continues run_cfg) [seen 100, seen (201 / 2), blank 101] \<and> ok (blank (518 / 5))
   \<and> since_motion run_cfg ([seen 100, seen (201 / 2), blank 101] @ [blank (518 / 5)]) = Some (201 / 2)
   \<and> Fall \<in> set (snd (iteration run_cfg
        (fst (loop run_cfg init_detector [seen 100, seen (201 / 2), blank 101])) (blank (518 / 5))))"
proof -
  let ?rs = "[seen 100, seen (201 / 2), blank 101]"
  let ?r = "blank (518 / 5)"
  have h: "list_all (continues run_cfg) ?rs \<and> ok ?r"
    using quiet_prefix_continues by (simp add: blank_def)
  have q: "quiet run_cfg \<le> now ?r - 201 / 2"
    by (simp add: run_cfg_def blank_def)
  have "(Fall \<in> set (snd (iteration run_cfg (fst (loop run_cfg init_detector ?rs)) ?r)))
          = ((after_rise (snd (loop run_cfg init_detector ?rs))
               \<or> (\<exists>c. Rise c \<in> set (snd (iteration run_cfg (fst (loop run_cfg init_detector ?rs)) ?r))))
             \<and> (\<exists>t. since_motion run_cfg (?rs @ [?r]) = Some t \<and> quiet run_cfg \<le> now ?r - t))"
    by (rule fall_after_quiet[of run_cfg init_detector ?r ?rs,
          THEN conjunct2, THEN conjunct2, THEN mp, OF h, THEN conjunct2])
  with quiet_prefix_after_rise quiet_prefix_since q
  have "Fall \<in> set (snd (iteration run_cfg (fst (loop run_cfg init_detector ?rs)) ?r))"
    by blast
  with h quiet_prefix_since show ?thesis by blast
qed

section \<open>Properties of the CoAP resources\<close>

subsection \<open>Unchanged writes\<close>

lemma filter_eq_absent: "p \<notin> set xs \<Longrightarrow> filter (\<lambda>x. x = p) xs = []"
  by (induction xs) auto

lemma distinct_filter_eq_le1: "distinct xs \<Longrightarrow> length (filter (\<lambda>x. x = p) xs) \<le> Suc 0"
  by (induction xs) (auto simp: filter_eq_absent)

lemma notified_updated_state:
  "notified (updated_state ob) p = notified ob p + length (filter (\<lambda>x. x = p) (subscribers ob))"
  by (simp add: notified_def updated_state_def filter_map comp_def)

lemma notified_updated_state_le:
  assumes "distinct (subscribers ob)"
  shows "notified (updated_state ob) p \<le> Suc (notified ob p)"
  using distinct_filter_eq_le1[OF assms, of p] by (simp add: notified_updated_state)

lemma sequence_updated_state: "sequence (updated_state ob) = Suc (sequence ob)"
  by (simp add: updated_state_def)

lemma motion_updated_state: "motion (updated_state r) = motion r"
  by (simp add: updated_state_def)

lemma ts_updated_state: "ts (updated_state r) = ts r"
  by (simp add: updated_state_def)

lemma label_updated_state: "label (updated_state r) = label r"
  by (simp add: updated_state_def)

lemma motion_set_same: "motion r = v \<Longrightarrow> MotionResource_set r v = r"
  by (simp add: MotionResource_set_def)

lemma motion_after_set: "motion (MotionResource_set r v) = v"
  by (simp add: MotionResource_set_def motion_updated_state)

lemma motion_set_twice: "MotionResource_set (MotionResource_set r v) v = MotionResource_set r v"
  by (rule motion_set_same) (rule motion_after_set)

lemma motion_set_sequence:
  "sequence (MotionResource_set r v) = (if motion r = v then sequence r else Suc (sequence r))"
  by (simp add: MotionResource_set_def sequence_updated_state)

lemma motion_set_notified:
  "distinct (subscribers r) \<Longrightarrow> notified (MotionResource_set r v) p \<le> Suc (notified r p)"
  using notified_updated_state_le[of "r\<lparr>motion := v\<rparr>" p]
  by (simp add: MotionResource_set_def notified_def)

lemma set_now_same: "ts r = encode s \<Longrightarrow> set_now encode r s = r"
  by (simp add: set_now_def)

lemma ts_after_set_now: "ts (set_now encode r s) = encode s"
  by (simp add: set_now_def ts_updated_state Let_def)

lemma set_now_twice: "set_now encode (set_now encode r s) s = set_now encode r s"
  by (rule set_now_same) (rule ts_after_set_now)

lemma set_now_sequence:
  "sequence (set_now encode r s) = (if ts r = encode s then sequence r else Suc (sequence r))"
  by (auto simp: set_now_def sequence_updated_state Let_def)

lemma set_now_notified:
  "distinct (subscribers r) \<Longrightarrow> notified (set_now encode r s) p \<le> Suc (notified r p)"
  using notified_updated_state_le[of "r\<lparr>ts := encode s\<rparr>" p]
  by (simp add: set_now_def notified_def Let_def)

lemma render_put_same: "label r = strip (or_empty x) \<Longrightarrow> fst (render_put r x) = r"
  by (simp add: render_put_def Let_def)

lemma label_after_put: "label (fst (render_put r x)) = strip (or_empty x)"
  by (simp add: render_put_def label_updated_state Let_def)

lemma render_put_twice: "fst (render_put (fst (render_put r x)) x) = fst (render_put r x)"
  by (rule render_put_same) (rule label_after_put)

lemma render_put_sequence:
  "sequence (fst (render_put r x))
     = (if label r = strip (or_empty x) then sequence r else Suc (sequence r))"
  by (auto simp: render_put_def sequence_updated_state Let_def)

lemma render_put_notified:
  "distinct (subscribers r) \<Longrightarrow> notified (fst (render_put r x)) p \<le> Suc (notified r p)"
  using notified_updated_state_le[of "r\<lparr>label := strip (or_empty x)\<rparr>" p]
  by (simp add: render_put_def notified_def Let_def)


lemma strip_person: "strip '' person '' = ''person''"
  by (simp add: strip_def is_space_def)

text \<open>
  C3. For each of the three observable resources, writing the value the resource already
  holds returns the resource as it was: value, sequence and scheduled notifications are
  unchanged. Writing the same value twice in a row equals writing it once, so the
  sequence grows by at most one and, the observers being registered once each, every
  observer is scheduled at most one notification. For \<open>class\<close> the value compared and
  stored is the stripped payload.
\<close>

theorem unchanged_write_noop:
  "(motion m = v \<longrightarrow> MotionResource_set m v = m)
   \<and> MotionResource_set (MotionResource_set m v) v = MotionResource_set m v
   \<and> sequence (MotionResource_set (MotionResource_set m v) v) \<le> Suc (sequence m)
   \<and> (distinct (subscribers m) \<longrightarrow>
        notified (MotionResource_set (MotionResource_set m v) v) p \<le> Suc (notified m p))
   \<and> (ts l = encode s \<longrightarrow> set_now encode l s = l)
   \<and> set_now encode (set_now encode l s) s = set_now encode l s
   \<and> sequence (set_now encode (set_now encode l s) s) \<le> Suc (sequence l)
   \<and> (distinct (subscribers l) \<longrightarrow>
        notified (set_now encode (set_now encode l s) s) p \<le> Suc (notified l p))
   \<and> (label c = strip (or_empty x) \<longrightarrow> fst (render_put c x) = c)
   \<and> fst (render_put (fst (render_put c x)) x) = fst (render_put c x)
   \<and> sequence (fst (render_put (fst (render_put c x)) x)) \<le> Suc (sequence c)
   \<and> (distinct (subscribers c) \<longrightarrow>
        notified (fst (render_put (fst (render_put c x)) x)) p \<le> Suc (notified c p))"
proof (intro conjI impI)
  show "MotionResource_set m v = m" if "motion m = v"
    using that by (rule motion_set_same)
  show "MotionResource_set (MotionResource_set m v) v = MotionResource_set m v"
    by (rule motion_set_twice)
  show "sequence (MotionResource_set (MotionResource_set m v) v) \<le> Suc (sequence m)"
    by (simp add: motion_set_twice motion_set_sequence)
  show "notified (MotionResource_set (MotionResource_set m v) v) p \<le> Suc (notified m p)"
    if "distinct (subscribers m)"
    using that by (simp add: motion_set_twice motion_set_notified)
  show "set_now encode l s = l" if "ts l = encode s"
    using that by (rule set_now_same)
  show "set_now encode (set_now encode l s) s = set_now encode l s"
    by (rule set_now_twice)
  show "sequence (set_now encode (set_now encode l s) s) \<le> Suc (sequence l)"
    by (simp add: set_now_twice set_now_sequence)
  show "notified (set_now encode (set_now encode l s) s) p \<le> Suc (notified l p)"
    if "distinct (subscribers l)"
    using that by (simp add: set_now_twice set_now_notified)
  show "fst (render_put c x) = c" if "label c = strip (or_empty x)"
    using that by (rule render_put_same)
  show "fst (render_put (fst (render_put c x)) x) = fst (render_put c x)"
    by (rule render_put_twice)
  show "sequence (fst (render_put (fst (render_put c x)) x)) \<le> Suc (sequence c)"
    by (simp add: render_put_twice render_put_sequence)
  show "notified (fst (render_put (fst (render_put c x)) x)) p \<le> Suc (notified c p)"
    if "distinct (subscribers c)"
    using that by (simp add: render_put_twice render_put_notified)
qed

text \<open>
  Three resources with two observers each: writing what they hold changes nothing, and
  writing a new value twice raises the sequence by one and schedules one notification
  for observer 1.
\<close>

theorem unchanged_write_noop_witness:
  "motion watched_motion = ''false'' \<and> distinct (subscribers watched_motion)
   \<and> ts watched_last = ascii ''2025-01-31_12-00-00'' \<and> distinct (subscribers watched_last)
   \<and> label watched_class = strip (or_empty (Some '' person '')) \<and> distinct (subscribers watched_class)
   \<and> MotionResource_set watched_motion ''false'' = watched_motion
   \<and> set_now ascii watched_last ''2025-01-31_12-00-00'' = watched_last
   \<and> fst (render_put watched_class (Some '' person '')) = watched_class
   \<and> sequence (MotionResource_set (MotionResource_set watched_motion ''true'') ''true'') = 5
   \<and> notified (MotionResource_set (MotionResource_set watched_motion ''true'') ''true'') 1 = 1"
proof -
  have h: "motion watched_motion = ''false''" "distinct (subscribers watched_motion)"
    "ts watched_last = ascii ''2025-01-31_12-00-00''" "distinct (subscribers watched_last)"
    "label watched_class = strip (or_empty (Some '' person ''))" "distinct (subscribers watched_class)"
    by (simp_all add: watched_motion_def watched_last_def watched_class_def ascii_def
        or_empty_def strip_person)
  note th = unchanged_write_noop[of watched_motion "''false''" 1 watched_last ascii
      "''2025-01-31_12-00-00''" watched_class "Some '' person ''"]
  have a: "MotionResource_set watched_motion ''false'' = watched_motion"
    using th h(1) by blast
  have b: "set_now ascii watched_last ''2025-01-31_12-00-00'' = watched_last"
    using th h(3) by blast
  have c: "fst (render_put watched_class (Some '' person '')) = watched_class"
    using th h(5) by blast
  have d: "sequence (MotionResource_set (MotionResource_set watched_motion ''true'') ''true'') = 5"
    by (simp add: motion_set_twice motion_set_sequence watched_motion_def)
  have e: "notified (MotionResource_set (MotionResource_set watched_motion ''true'') ''true'') 1 = 1"
    by (simp add: MotionResource_set_def updated_state_def watched_motion_def notified_def)
  from h a b c d e show ?thesis by blast
qed

subsection \<open>Writes to the class resource\<close>

lemma strip_decompose:
  "\<exists>pre suf. b = pre @ strip b @ suf \<and> list_all is_space pre \<and> list_all is_space suf"
proof -
  let ?ys = "dropWhile is_space b"
  have 1: "b = takeWhile is_space b @ ?ys" by simp
  have "rev (takeWhile is_space (rev ?ys) @ dropWhile is_space (rev ?ys)) = ?ys" by simp
  then have 2: "?ys = strip b @ rev (takeWhile is_space (rev ?ys))"
    unfolding rev_append strip_def by (rule sym)
  have 3: "list_all is_space (takeWhile is_space b)"
    and 4: "list_all is_space (rev (takeWhile is_space (rev ?ys)))"
    by (auto simp: list_all_iff dest: set_takeWhileD)
  from 1 2 have "b = takeWhile is_space b @ strip b @ rev (takeWhile is_space (rev ?ys))"
    by metis
  with 3 4 show ?thesis by blast
qed

lemma strip_ends:
  "strip b = [] \<or> (\<not> is_space (hd (strip b)) \<and> \<not> is_space (last (strip b)))"
proof (cases "strip b = []")
  case True
  then show ?thesis by simp
next
  case False
  let ?ys = "dropWhile is_space b"
  let ?zs = "dropWhile is_space (rev ?ys)"
  have z: "?zs \<noteq> []" using False by (simp add: strip_def)
  then have l: "\<not> is_space (hd ?zs)" by (rule hd_dropWhile)
  have "last (strip b) = hd ?zs" using z by (simp add: strip_def last_rev)
  with l have a: "\<not> is_space (last (strip b))" by simp
  have y: "?ys \<noteq> []"
  proof
    assume e: "?ys = []"
    have "?zs = dropWhile is_space (rev [])" by (simp only: e)
    with z show False by simp
  qed
  then have hy: "\<not> is_space (hd ?ys)" by (rule hd_dropWhile)
  have "rev (takeWhile is_space (rev ?ys) @ ?zs) = ?ys" by simp
  then have "?ys = rev ?zs @ rev (takeWhile is_space (rev ?ys))"
    unfolding rev_append by (rule sym)
  then have "hd ?ys = hd (rev ?zs)" using z by (metis hd_append2 rev_is_Nil_conv)
  with hy have "\<not> is_space (hd (strip b))" by (simp add: strip_def)
  with a show ?thesis by simp
qed

lemma render_put_response:
  "snd (render_put r x)
     = \<lparr>mcode = Some CHANGED, payload = ''ok'', content_format = None, observe = None\<rparr>"
  by (simp add: render_put_def Let_def)

lemma render_put_notified_eq:
  "notified (fst (render_put r x)) p
     = notified r p + (if strip (or_empty x) = label r then 0
                       else length (filter (\<lambda>q. q = p) (subscribers r)))"
  using notified_updated_state[of "r\<lparr>label := strip (or_empty x)\<rparr>" p]
  by (simp add: render_put_def notified_def Let_def)


text \<open>
  C7. A PUT to \<open>class\<close> stores the payload stripped of leading and trailing ASCII
  whitespace: the stored label is the payload between a whitespace prefix and a
  whitespace suffix and, unless empty, neither starts nor ends with whitespace; the
  payload \<open>" person "\<close> stores \<open>"person"\<close>. The response is always \<open>CHANGED\<close> with body
  \<open>"ok"\<close>, which no GET response of the four resources equals. Comparison uses the
  stripped payload: when it equals the stored label the resource is returned unchanged,
  so no notification is scheduled; when it differs the sequence grows by one.
\<close>

theorem class_put_trims:
  "label (fst (render_put r x)) = strip (or_empty x)
   \<and> (\<exists>pre suf. or_empty x = pre @ label (fst (render_put r x)) @ suf
          \<and> list_all is_space pre \<and> list_all is_space suf)
   \<and> (label (fst (render_put r x)) = []
        \<or> (\<not> is_space (hd (label (fst (render_put r x))))
            \<and> \<not> is_space (last (label (fst (render_put r x))))))
   \<and> label (fst (render_put r (Some '' person ''))) = ''person''
   \<and> snd (render_put r x)
       = \<lparr>mcode = Some CHANGED, payload = ''ok'', content_format = None, observe = None\<rparr>
   \<and> snd (render_put r x) \<noteq> ClassResource_render_get c
   \<and> snd (render_put r x) \<noteq> MotionResource_render_get m
   \<and> snd (render_put r x) \<noteq> LastDetectionResource_render_get l
   \<and> snd (render_put r x) \<noteq> ImageResource_render_get i
   \<and> (strip (or_empty x) = label r \<longrightarrow>
         fst (render_put r x) = r \<and> notified (fst (render_put r x)) p = notified r p)
   \<and> (strip (or_empty x) \<noteq> label r \<longrightarrow>
         sequence (fst (render_put r x)) = Suc (sequence r))"
proof (intro conjI impI)
  show a: "label (fst (render_put r x)) = strip (or_empty x)"
    by (rule label_after_put)
  show "\<exists>pre suf. or_empty x = pre @ label (fst (render_put r x)) @ suf
          \<and> list_all is_space pre \<and> list_all is_space suf"
    unfolding a by (rule strip_decompose)
  show "label (fst (render_put r x)) = []
        \<or> (\<not> is_space (hd (label (fst (render_put r x))))
            \<and> \<not> is_space (last (label (fst (render_put r x)))))"
    unfolding a by (rule strip_ends)
  show "label (fst (render_put r (Some '' person ''))) = ''person''"
    by (simp add: label_after_put or_empty_def strip_person)
  show "snd (render_put r x)
       = \<lparr>mcode = Some CHANGED, payload = ''ok'', content_format = None, observe = None\<rparr>"
    by (rule render_put_response)
  show "snd (render_put r x) \<noteq> ClassResource_render_get c"
    by (simp add: render_put_response ClassResource_render_get_def)
  show "snd (render_put r x) \<noteq> MotionResource_render_get m"
    by (simp add: render_put_response MotionResource_render_get_def)
  show "snd (render_put r x) \<noteq> LastDetectionResource_render_get l"
    by (simp add: render_put_response LastDetectionResource_render_get_def)
  show "snd (render_put r x) \<noteq> ImageResource_render_get i"
    by (simp add: render_put_response ImageResource_render_get_def)
next
  assume e: "strip (or_empty x) = label r"
  then show s: "fst (render_put r x) = r" by (simp add: render_put_same)
  show "notified (fst (render_put r x)) p = notified r p" unfolding s ..
next
  assume "strip (or_empty x) \<noteq> label r"
  then show "sequence (fst (render_put r x)) = Suc (sequence r)"
    by (auto simp: render_put_sequence)
qed

text \<open>
  The observed \<open>class\<close> resource holding \<open>"person"\<close>: the payload \<open>" person "\<close> is
  acknowledged and changes nothing; the payload \<open>"cat\n"\<close> stores \<open>"cat"\<close> and raises
  the sequence.
\<close>

theorem class_put_trims_witness:
  "strip (or_empty (Some '' person '')) = label watched_class
   \<and> fst (render_put watched_class (Some '' person '')) = watched_class
   \<and> mcode (snd (render_put watched_class (Some '' person ''))) = Some CHANGED
   \<and> strip (or_empty (Some [CHR ''c'', CHR ''a'', CHR ''t'', CHR 0x0A])) \<noteq> label watched_class
   \<and> label (fst (render_put watched_class (Some [CHR ''c'', CHR ''a'', CHR ''t'', CHR 0x0A]))) = ''cat''
   \<and> sequence (fst (render_put watched_class (Some [CHR ''c'', CHR ''a'', CHR ''t'', CHR 0x0A]))) = 3"
proof -
  let ?cat = "Some [CHR ''c'', CHR ''a'', CHR ''t'', CHR 0x0A]"
  have sc: "strip (or_empty ?cat) = ''cat''"
    by (simp add: strip_def is_space_def or_empty_def)
  have h1: "strip (or_empty (Some '' person '')) = label watched_class"
    by (simp add: watched_class_def or_empty_def strip_person)
  have h2: "strip (or_empty ?cat) \<noteq> label watched_class"
    by (simp add: sc watched_class_def)
  note t1 = class_put_trims[of watched_class "Some '' person ''" ClassResource_init
      MotionResource_init LastDetectionResource_init ImageResource_init 1]
  note t2 = class_put_trims[of watched_class ?cat ClassResource_init
      MotionResource_init LastDetectionResource_init ImageResource_init 1]
  have a: "fst (render_put watched_class (Some '' person '')) = watched_class"
    using t1 h1 by blast
  have b: "mcode (snd (render_put watched_class (Some '' person ''))) = Some CHANGED"
    using t1 by simp
  have c: "label (fst (render_put watched_class ?cat)) = ''cat''"
    using t2 sc by simp
  have "sequence (fst (render_put watched_class ?cat)) = Suc (sequence watched_class)"
    using t2 h2 by blast
  then have d: "sequence (fst (render_put watched_class ?cat)) = 3"
    by (simp add: watched_class_def)
  from h1 a b h2 c d show ?thesis by blast
qed

text \<open>
  C6, as stated, fails: \<^verbatim>\<open>render_put\<close> has no validation. The two bytes \<open>FF FE\<close> are
  not UTF-8 (no UTF-8 sequence contains \<open>FF\<close>), yet the PUT is acknowledged with
  \<open>CHANGED\<close>, the bytes are stored and the observers are notified.
\<close>

theorem malformed_put_accepted:
  "snd (render_put watched_class (Some [CHR 0xFF, CHR 0xFE]))
     = \<lparr>mcode = Some CHANGED, payload = ''ok'', content_format = None, observe = None\<rparr>
   \<and> label (fst (render_put watched_class (Some [CHR 0xFF, CHR 0xFE]))) = [CHR 0xFF, CHR 0xFE]
   \<and> label (fst (render_put watched_class (Some [CHR 0xFF, CHR 0xFE]))) \<noteq> label watched_class
   \<and> sequence (fst (render_put watched_class (Some [CHR 0xFF, CHR 0xFE]))) = 3
   \<and> notified (fst (render_put watched_class (Some [CHR 0xFF, CHR 0xFE]))) 1 = 1"
  by (simp add: render_put_def Let_def strip_def is_space_def or_empty_def watched_class_def
      updated_state_def notified_def)

text \<open>
  C6, amended. Every PUT to \<open>class\<close> is accepted, whatever its payload (any bytes, any
  length): the response is \<open>CHANGED\<close> with body \<open>"ok"\<close>, the stripped payload is stored,
  and exactly when it differs from the label held before, the sequence grows by one and
  each registered observer is scheduled a notification.
\<close>

theorem put_always_accepted:
  "mcode (snd (render_put r x)) = Some CHANGED
   \<and> payload (snd (render_put r x)) = ''ok''
   \<and> label (fst (render_put r x)) = strip (or_empty x)
   \<and> sequence (fst (render_put r x))
       = (if strip (or_empty x) = label r then sequence r else Suc (sequence r))
   \<and> notified (fst (render_put r x)) p
       = notified r p + (if strip (or_empty x) = label r then 0
                         else length (filter (\<lambda>q. q = p) (subscribers r)))"
  using render_put_sequence[of r x] render_put_notified_eq[of r x p]
  by (auto simp: render_put_response label_after_put)

subsection \<open>Order of the updates on a rise\<close>

lemma on_rise_states_last:
  "on_rise_states imencode encode st crop stamp
     = [st, rise_image imencode st crop,
        rise_last encode (rise_image imencode st crop) stamp,
        on_rise imencode encode st crop stamp]"
  by (simp add: on_rise_states_def on_rise_def Let_def)

lemma rise_image_others:
  "last_res (rise_image imencode st crop) = last_res st
   \<and> motion_res (rise_image imencode st crop) = motion_res st
   \<and> class_res (rise_image imencode st crop) = class_res st"
  by (simp add: rise_image_def split: option.splits)

lemma rise_last_others:
  "image_res (rise_last encode st stamp) = image_res st
   \<and> motion_res (rise_last encode st stamp) = motion_res st
   \<and> class_res (rise_last encode st stamp) = class_res st"
  by (simp add: rise_last_def)

lemma rise_motion_others:
  "image_res (rise_motion st) = image_res st
   \<and> last_res (rise_motion st) = last_res st
   \<and> class_res (rise_motion st) = class_res st"
  by (simp add: rise_motion_def)

lemma rise_image_written:
  assumes "crop = Some c" "0 < array_size c" "imencode c = Some buf"
  shows "jpeg (image_res (rise_image imencode st crop)) = buf"
  using assms by (simp add: rise_image_def set_jpeg_def)

lemma rise_image_skipped:
  assumes "crop = None \<or> (\<exists>c. crop = Some c \<and> (array_size c = 0 \<or> imencode c = None))"
  shows "rise_image imencode st crop = st"
  using assms by (auto simp: rise_image_def)

lemma rise_last_ts: "ts (last_res (rise_last encode st stamp)) = encode stamp"
  by (simp add: rise_last_def ts_after_set_now)

lemma rise_motion_true: "motion (motion_res (rise_motion st)) = ''true''"
  by (simp add: rise_motion_def motion_after_set)


text \<open>
  C4, as stated, fails when the image is not written: the crop is non-empty, but
  \<^verbatim>\<open>cv2.imencode\<close> reports failure. After \<^verbatim>\<open>on_rise\<close>, \<open>lastDetection\<close> holds the
  timestamp of this rise while \<open>image\<close> still holds the bytes of the earlier one.
\<close>

theorem stale_image_after_rise:
  "0 < array_size snapshot
   \<and> ts (last_res earlier_site) \<noteq> ''2025-01-31_12-00-05''
   \<and> ts (last_res (on_rise encoder_fails ascii earlier_site (Some snapshot) ''2025-01-31_12-00-05''))
       = ''2025-01-31_12-00-05''
   \<and> jpeg (image_res (on_rise encoder_fails ascii earlier_site (Some snapshot) ''2025-01-31_12-00-05''))
       = ''JPEG-1''
   \<and> jpeg (image_res earlier_site) = ''JPEG-1''"
  by (simp add: on_rise_def rise_image_def rise_last_def rise_motion_def set_now_def
      updated_state_def encoder_fails_def ascii_def earlier_site_def watched_last_def
      array_size_def snapshot_def Let_def)

text \<open>
  C4, amended. \<^verbatim>\<open>on_rise\<close> passes through four states: the one before it, then the
  states after its image, \<open>lastDetection\<close> and \<open>motion\<close> statements, in that order; each
  statement leaves the other resources as they are. The image is written only when the
  crop is present, non-empty and JPEG encoding succeeds; then every state in which
  \<open>lastDetection\<close> differs from what it was before the rise already holds this rise's
  JPEG bytes in \<open>image\<close>. Otherwise \<open>image\<close> keeps its bytes in all four states, while
  \<open>lastDetection\<close> and \<open>motion\<close> are updated all the same.
\<close>

theorem rise_update_order:
  "(let s1 = rise_image imencode st crop;
        s2 = rise_last encode s1 stamp;
        s3 = on_rise imencode encode st crop stamp
    in on_rise_states imencode encode st crop stamp = [st, s1, s2, s3]
       \<and> last_res s1 = last_res st \<and> motion_res s1 = motion_res st \<and> class_res s1 = class_res st
       \<and> image_res s2 = image_res s1 \<and> motion_res s2 = motion_res st \<and> class_res s2 = class_res st
       \<and> ts (last_res s2) = encode stamp
       \<and> image_res s3 = image_res s1 \<and> last_res s3 = last_res s2 \<and> class_res s3 = class_res st
       \<and> motion (motion_res s3) = ''true'')
   \<and> (crop = Some c \<and> 0 < array_size c \<and> imencode c = Some buf \<longrightarrow>
        list_all (\<lambda>s. last_res s = last_res st \<or> jpeg (image_res s) = buf)
          (on_rise_states imencode encode st crop stamp))
   \<and> (crop = None \<or> (\<exists>d. crop = Some d \<and> (array_size d = 0 \<or> imencode d = None)) \<longrightarrow>
        list_all (\<lambda>s. image_res s = image_res st)
          (on_rise_states imencode encode st crop stamp))"
proof (intro conjI impI)
  show "let s1 = rise_image imencode st crop;
        s2 = rise_last encode s1 stamp;
        s3 = on_rise imencode encode st crop stamp
    in on_rise_states imencode encode st crop stamp = [st, s1, s2, s3]
       \<and> last_res s1 = last_res st \<and> motion_res s1 = motion_res st \<and> class_res s1 = class_res st
       \<and> image_res s2 = image_res s1 \<and> motion_res s2 = motion_res st \<and> class_res s2 = class_res st
       \<and> ts (last_res s2) = encode stamp
       \<and> image_res s3 = image_res s1 \<and> last_res s3 = last_res s2 \<and> class_res s3 = class_res st
       \<and> motion (motion_res s3) = ''true''"
    unfolding Let_def
    by (simp add: on_rise_states_last rise_image_others rise_last_others rise_motion_others
        rise_last_ts rise_motion_true on_rise_def)
next
  assume h: "crop = Some c \<and> 0 < array_size c \<and> imencode c = Some buf"
  then have w: "jpeg (image_res (rise_image imencode st crop)) = buf"
    by (intro rise_image_written[of crop c imencode buf st]) simp_all
  show "list_all (\<lambda>s. last_res s = last_res st \<or> jpeg (image_res s) = buf)
          (on_rise_states imencode encode st crop stamp)"
    by (simp add: on_rise_states_last on_rise_def rise_last_others rise_motion_others w)
next
  assume "crop = None \<or> (\<exists>d. crop = Some d \<and> (array_size d = 0 \<or> imencode d = None))"
  then have k: "rise_image imencode st crop = st"
    by (rule rise_image_skipped)
  show "list_all (\<lambda>s. image_res s = image_res st)
          (on_rise_states imencode encode st crop stamp)"
    by (simp add: on_rise_states_last on_rise_def rise_last_others rise_motion_others k)
qed

text \<open>
  A rise five seconds after the earlier one. With a working encoder the second state
  already holds the new bytes and the last one holds them with the new timestamp; with
  the failing encoder all four states keep the earlier bytes.
\<close>

theorem rise_update_order_witness:
  "0 < array_size snapshot \<and> encoder_ok snapshot = Some ''JPEG-2''
   \<and> encoder_fails snapshot = None
   \<and> list_all (\<lambda>s. last_res s = last_res earlier_site \<or> jpeg (image_res s) = ''JPEG-2'')
        (on_rise_states encoder_ok ascii earlier_site (Some snapshot) ''2025-01-31_12-00-05'')
   \<and> list_all (\<lambda>s. image_res s = image_res earlier_site)
        (on_rise_states encoder_fails ascii earlier_site (Some snapshot) ''2025-01-31_12-00-05'')
   \<and> jpeg (image_res (on_rise encoder_ok ascii earlier_site (Some snapshot) ''2025-01-31_12-00-05''))
       = ''JPEG-2''
   \<and> ts (last_res (on_rise encoder_ok ascii earlier_site (Some snapshot) ''2025-01-31_12-00-05''))
       = ''2025-01-31_12-00-05''"
proof -
  have h1: "Some snapshot = Some snapshot \<and> 0 < array_size snapshot
      \<and> encoder_ok snapshot = Some ''JPEG-2''"
    by (simp add: array_size_def snapshot_def encoder_ok_def)
  have h2: "Some snapshot = None
      \<or> (\<exists>d. Some snapshot = Some d \<and> (array_size d = 0 \<or> encoder_fails d = None))"
    by (simp add: encoder_fails_def)
  have a: "list_all (\<lambda>s. last_res s = last_res earlier_site \<or> jpeg (image_res s) = ''JPEG-2'')
        (on_rise_states encoder_ok ascii earlier_site (Some snapshot) ''2025-01-31_12-00-05'')"
    by (rule rise_update_order[of encoder_ok earlier_site "Some snapshot" ascii
          "''2025-01-31_12-00-05''" snapshot "''JPEG-2''",
          THEN conjunct2, THEN conjunct1, THEN mp, OF h1])
  have b: "list_all (\<lambda>s. image_res s = image_res earlier_site)
        (on_rise_states encoder_fails ascii earlier_site (Some snapshot) ''2025-01-31_12-00-05'')"
    by (rule rise_update_order[of encoder_fails earlier_site "Some snapshot" ascii
          "''2025-01-31_12-00-05''" snapshot "''JPEG-2''",
          THEN conjunct2, THEN conjunct2, THEN mp, OF h2])
  have c: "jpeg (image_res (on_rise encoder_ok ascii earlier_site (Some snapshot) ''2025-01-31_12-00-05''))
       = ''JPEG-2''"
    using h1 by (simp add: on_rise_def rise_last_others rise_motion_others rise_image_written)
  have d: "ts (last_res (on_rise encoder_ok ascii earlier_site (Some snapshot) ''2025-01-31_12-00-05''))
       = ''2025-01-31_12-00-05''"
    by (simp add: on_rise_def rise_motion_others rise_last_ts ascii_def)
  have e: "encoder_fails snapshot = None" by (simp add: encoder_fails_def)
  from h1 e a b c d show ?thesis by blast
qed

section \<open>Properties of the classification client\<close>

lemma handle_notification_any: "handle_notification net n = handle_notification net n'"
  by (simp add: handle_notification_def)

lemma handle_notification_ok:
  "net get_image = Some reply \<Longrightarrow>
     handle_notification net n = [get_image, put_class (infer_jpeg (payload reply))]"
  by (simp add: handle_notification_def)

lemma handle_notification_failed:
  "net get_image = None \<Longrightarrow> handle_notification net n = [get_image]"
  by (simp add: handle_notification_def)

lemma client_main_started:
  "net observe_last = Some r \<Longrightarrow> decodes (payload r) \<Longrightarrow>
     client_main net decodes ns = [observe_last] # map (handle_notification net) ns"
  by (simp add: client_main_def)

lemma client_main_first: "hd (client_main net decodes ns) = [observe_last]"
  by (simp add: client_main_def split: option.splits)

lemma camera_observe:
  "camera_net observe_last = Some \<lparr>mcode = None, payload = ''2025-01-31_12-00-00'',
                 content_format = Some text_plain, observe = Some 2\<rparr>"
  by (simp add: camera_net_def observe_last_def)

lemma camera_image:
  "camera_net get_image = Some \<lparr>mcode = None, payload = ''JPEG-1'',
                 content_format = Some image_jpeg, observe = None\<rparr>"
  by (simp add: camera_net_def get_image_def PATH_LAST_def PATH_IMAGE_def)

text \<open>
  C8, as stated, fails: the client keeps no sequence number and its callback starts a
  task for every notification. After a notification with sequence 5, one with the stale
  sequence 3 is handled all the same (a third task, fetching the image and writing the
  label), where the protocol of the spec acts on the first only.
\<close>

theorem stale_notification_handled:
  "client_main camera_net decodes_all [notification 5, notification 3]
     = [[observe_last], [get_image, put_class ''unknown''], [get_image, put_class ''unknown'']]
   \<and> spec_client_main camera_net decodes_all [notification 5, notification 3]
     = [[observe_last], [get_image, put_class ''unknown'']]"
  by (simp add: client_main_def spec_client_main_def camera_observe camera_image
      handle_notification_def decodes_all_def notification_def infer_jpeg_def)

text \<open>
  C8, amended. The first request of the client is always the observing GET of
  \<open>lastdetection\<close>, which is both the immediate read and the registration. Once it is
  answered and decoded, the client starts one task for every notification handed to its
  callback, whatever the notification carries: the task fetches \<open>image\<close> with a plain
  GET and, when that is answered, writes the label computed from the fetched bytes
  (always \<open>"unknown"\<close>) to \<open>class\<close>; when the fetch fails nothing is written.
\<close>

theorem client_handles_every_notification:
  "hd (client_main net decodes ns) = [observe_last]
   \<and> (net observe_last = Some r \<and> decodes (payload r) \<longrightarrow>
        client_main net decodes ns = [observe_last] # map (handle_notification net) ns
        \<and> length (client_main net decodes ns) = Suc (length ns))
   \<and> handle_notification net n = handle_notification net n'
   \<and> (net get_image = Some reply \<longrightarrow>
        handle_notification net n = [get_image, put_class (infer_jpeg (payload reply))]
        \<and> infer_jpeg (payload reply) = ''unknown'')
   \<and> (net get_image = None \<longrightarrow> handle_notification net n = [get_image])"
proof (intro conjI impI)
  show "hd (client_main net decodes ns) = [observe_last]"
    by (rule client_main_first)
  show "handle_notification net n = handle_notification net n'"
    by (rule handle_notification_any)
  show "infer_jpeg (payload reply) = ''unknown''"
    by (simp add: infer_jpeg_def)
  show "handle_notification net n = [get_image, put_class (infer_jpeg (payload reply))]"
    if "net get_image = Some reply"
    using that by (rule handle_notification_ok)
  show "handle_notification net n = [get_image]" if "net get_image = None"
    using that by (rule handle_notification_failed)
next
  assume h: "net observe_last = Some r \<and> decodes (payload r)"
  then show c: "client_main net decodes ns = [observe_last] # map (handle_notification net) ns"
    by (simp add: client_main_started)
  show "length (client_main net decodes ns) = Suc (length ns)"
    unfolding c by simp
qed


text \<open>
  Against the answering camera, two notifications give the observing read followed by
  two tasks, each fetching the image and writing \<open>"unknown"\<close>; against a network where
  the image fetch fails, a task sends the fetch only.
\<close>

theorem client_handles_every_notification_witness:
  "camera_net observe_last \<noteq> None \<and> decodes_all ''2025-01-31_12-00-00''
   \<and> camera_net get_image \<noteq> None
   \<and> (\<lambda>q. if q = get_image then None else camera_net q) get_image = None
   \<and> client_main camera_net decodes_all [notification 3, notification 4]
       = [[observe_last], [get_image, put_class ''unknown''], [get_image, put_class ''unknown'']]
   \<and> handle_notification (\<lambda>q. if q = get_image then None else camera_net q) (notification 3)
       = [get_image]"
proof -
  let ?r = "\<lparr>mcode = None, payload = ''2025-01-31_12-00-00'',
                 content_format = Some text_plain, observe = Some 2\<rparr>"
  let ?i = "\<lparr>mcode = None, payload = ''JPEG-1'',
                 content_format = Some image_jpeg, observe = None\<rparr>"
  let ?down = "\<lambda>q. if q = get_image then None else camera_net q"
  have h1: "camera_net observe_last = Some ?r \<and> decodes_all (payload ?r)"
    by (simp add: camera_observe decodes_all_def)
  have h2: "camera_net get_image = Some ?i" by (rule camera_image)
  have h3: "?down get_image = None" by simp
  note t = client_handles_every_notification[of camera_net decodes_all
      "[notification 3, notification 4]" ?r "notification 3" "notification 4" ?i]
  have a: "client_main camera_net decodes_all [notification 3, notification 4]
      = [observe_last] # map (handle_notification camera_net) [notification 3, notification 4]"
    using t h1 by blast
  have "handle_notification camera_net (notification 3)
          = [get_image, put_class (infer_jpeg (payload ?i))]
        \<and> infer_jpeg (payload ?i) = ''unknown''"
    using t h2 by blast
  then have b: "handle_notification camera_net (notification 3) = [get_image, put_class ''unknown'']"
    by simp
  have "handle_notification camera_net (notification 3) = handle_notification camera_net (notification 4)"
    using t by blast
  with b have c: "handle_notification camera_net (notification 4) = [get_image, put_class ''unknown'']"
    by simp
  have d: "handle_notification ?down (notification 3) = [get_image]"
    using client_handles_every_notification[of ?down decodes_all "[]" ?r "notification 3"
        "notification 4" ?i] h3 by blast
  from a b c have e: "client_main camera_net decodes_all [notification 3, notification 4]
       = [[observe_last], [get_image, put_class ''unknown''], [get_image, put_class ''unknown'']]"
    by simp
  from h1 h2 h3 d e show ?thesis by (simp add: decodes_all_def)
qed

section \<open>Properties of the message-bus classifier\<close>

lemma split_on_nonempty: "split_on sep s \<noteq> []"
  by (induction s) (auto split: list.splits)

lemma split_on_no_sep: "sep \<notin> set a \<Longrightarrow> split_on sep a = [a]"
  by (induction a) auto

lemma split_on_first: "sep \<notin> set a \<Longrightarrow> split_on sep (a @ sep # rest) = a # split_on sep rest"
  by (induction a) (auto simp: split_on_nonempty split: list.splits)

lemma device_topic_parts:
  assumes "CHR ''/'' \<notin> set ident"
  shows "split_on CHR ''/'' (''motion/device/'' @ ident @ ''/image'')
           = [''motion'', ''device'', ident, ''image'']"
proof -
  have 1: "split_on CHR ''/'' (''motion/device/'' @ ident @ ''/image'')
      = ''motion'' # split_on CHR ''/'' (''device/'' @ ident @ ''/image'')"
    using split_on_first[of "CHR ''/''" "''motion''" "''device/'' @ ident @ ''/image''"] by simp
  have 2: "split_on CHR ''/'' (''device/'' @ ident @ ''/image'')
      = ''device'' # split_on CHR ''/'' (ident @ ''/image'')"
    using split_on_first[of "CHR ''/''" "''device''" "ident @ ''/image''"] by simp
  have 3: "split_on CHR ''/'' (ident @ ''/image'') = ident # split_on CHR ''/'' ''image''"
    using split_on_first[OF assms, of "''image''"] by simp
  have 4: "split_on CHR ''/'' ''image'' = [''image'']"
    by (rule split_on_no_sep) simp
  show ?thesis by (simp only: 1 2 3 4)
qed

lemma device_cam_id:
  assumes "CHR ''/'' \<notin> set ident"
  shows "cam_id_of (''motion/device/'' @ ident @ ''/image'') = ident"
proof -
  have "cam_id_of (''motion/device/'' @ ident @ ''/image'')
      = (let parts = [''motion'', ''device'', ident, ''image'']
         in if 4 \<le> length parts then parts ! 2 else ''unknown'')"
    unfolding cam_id_of_def device_topic_parts[OF assms] ..
  then show ?thesis by simp
qed

lemma on_message_at_most_one: "length (on_message imdecode detect publish m) \<le> Suc 0"
  by (simp add: on_message_def Let_def split: sum.splits)

lemma on_message_published:
  assumes "imdecode (mpayload m) = Inr im" "classify_bgr detect im = Inr lbl"
    and "publish (out_topic_of (cam_id_of (topic m))) lbl = Inr u"
  shows "on_message imdecode detect publish m = [(out_topic_of (cam_id_of (topic m)), lbl)]"
  using assms by (simp add: on_message_def Let_def)

lemma on_message_failed:
  assumes "(\<exists>e. imdecode (mpayload m) = Inl e)
     \<or> (\<exists>im e. imdecode (mpayload m) = Inr im \<and> classify_bgr detect im = Inl e)
     \<or> (\<exists>im lbl e. imdecode (mpayload m) = Inr im \<and> classify_bgr detect im = Inr lbl
           \<and> publish (out_topic_of (cam_id_of (topic m))) lbl = Inl e)"
  shows "on_message imdecode detect publish m = []"
  using assms by (auto simp: on_message_def Let_def)

lemma deliver_concat:
  "deliver imdecode detect publish acc ms
     = acc @ concat (map (on_message imdecode detect publish) ms)"
  by (induction ms arbitrary: acc) auto

lemma deliver_around:
  "deliver imdecode detect publish [] (before @ m # after)
     = deliver imdecode detect publish [] before
       @ on_message imdecode detect publish m
       @ deliver imdecode detect publish [] after"
  by (simp add: deliver_concat)

lemma classify_bgr_label:
  "classify_bgr detect im = Inr lbl \<Longrightarrow> lbl = ''person'' \<or> lbl = ''unknown''"
  by (auto simp: classify_bgr_def split: option.splits if_splits sum.splits)


lemma good_message_label:
  "on_message cv_decode one_face broker_ok good_message = [(''motion/device/cam7/class'', ''person'')]"
proof -
  have c: "cam_id_of (topic good_message) = ''cam7''"
    using device_cam_id[of "''cam7''"] by (simp add: good_message_def)
  have d: "cv_decode (mpayload good_message) = Inr (Some snapshot)"
    by (simp add: cv_decode_def good_message_def)
  have k: "classify_bgr one_face (Some snapshot) = Inr ''person''"
    by (simp add: classify_bgr_def one_face_def array_size_def snapshot_def)
  have p: "broker_ok (out_topic_of (cam_id_of (topic good_message))) ''person'' = Inr ()"
    by (simp add: broker_ok_def)
  have "on_message cv_decode one_face broker_ok good_message
      = [(out_topic_of (cam_id_of (topic good_message)), ''person'')]"
    using d k p by (rule on_message_published)
  then show ?thesis by (simp add: c out_topic_of_def)
qed

lemma empty_message_none: "on_message cv_decode one_face broker_ok empty_message = []"
  by (rule on_message_failed) (simp add: cv_decode_def empty_message_def)

text \<open>
  C9, as stated, fails for a message whose handling raises: decoding the empty payload
  raises, the handler catches the exception, and no label is published for that
  message. Of three messages received, two are labelled.
\<close>

theorem failed_message_unlabelled:
  "cv_decode (mpayload empty_message) = Inl Exception
   \<and> on_message cv_decode one_face broker_ok empty_message = []
   \<and> deliver cv_decode one_face broker_ok [] [good_message, empty_message, good_message]
       = [(''motion/device/cam7/class'', ''person''), (''motion/device/cam7/class'', ''person'')]"
proof (intro conjI)
  show "cv_decode (mpayload empty_message) = Inl Exception"
    by (simp add: cv_decode_def empty_message_def)
  show "on_message cv_decode one_face broker_ok empty_message = []"
    by (rule empty_message_none)
  show "deliver cv_decode one_face broker_ok [] [good_message, empty_message, good_message]
       = [(''motion/device/cam7/class'', ''person''), (''motion/device/cam7/class'', ''person'')]"
    by (simp add: good_message_label empty_message_none)
qed

text \<open>
  C9, amended. Handling one message publishes at most one label: exactly one, on the
  output topic built from the camera identifier of the message's topic, when decoding,
  classification and publishing raise nothing; none when one of them raises. The topic
  \<open>motion/device/<id>/image\<close> gives the output topic \<open>motion/device/<id>/class\<close>. The
  exception stays inside the handler: the labels published for the messages before and
  after are the same whatever happens to the message in between.
\<close>

theorem label_per_processed_message:
  "length (on_message imdecode detect publish m) \<le> 1
   \<and> (imdecode (mpayload m) = Inr im \<and> classify_bgr detect im = Inr lbl
        \<and> publish (out_topic_of (cam_id_of (topic m))) lbl = Inr u \<longrightarrow>
        on_message imdecode detect publish m = [(out_topic_of (cam_id_of (topic m)), lbl)])
   \<and> ((\<exists>e. imdecode (mpayload m) = Inl e)
        \<or> (\<exists>im e. imdecode (mpayload m) = Inr im \<and> classify_bgr detect im = Inl e)
        \<or> (\<exists>im lbl e. imdecode (mpayload m) = Inr im \<and> classify_bgr detect im = Inr lbl
              \<and> publish (out_topic_of (cam_id_of (topic m))) lbl = Inl e) \<longrightarrow>
        on_message imdecode detect publish m = [])
   \<and> (CHR ''/'' \<notin> set ident \<longrightarrow>
        out_topic_of (cam_id_of (''motion/device/'' @ ident @ ''/image''))
          = ''motion/device/'' @ ident @ ''/class'')
   \<and> deliver imdecode detect publish [] (before @ m # after)
       = deliver imdecode detect publish [] before
         @ on_message imdecode detect publish m
         @ deliver imdecode detect publish [] after"
proof (intro conjI impI)
  show "length (on_message imdecode detect publish m) \<le> 1"
    using on_message_at_most_one[of imdecode detect publish m] by simp
  show "on_message imdecode detect publish m = [(out_topic_of (cam_id_of (topic m)), lbl)]"
    if "imdecode (mpayload m) = Inr im \<and> classify_bgr detect im = Inr lbl
        \<and> publish (out_topic_of (cam_id_of (topic m))) lbl = Inr u"
    using that by (intro on_message_published[of imdecode m im detect lbl publish u]) simp_all
  show "on_message imdecode detect publish m = []"
    if "(\<exists>e. imdecode (mpayload m) = Inl e)
        \<or> (\<exists>im e. imdecode (mpayload m) = Inr im \<and> classify_bgr detect im = Inl e)
        \<or> (\<exists>im lbl e. imdecode (mpayload m) = Inr im \<and> classify_bgr detect im = Inr lbl
              \<and> publish (out_topic_of (cam_id_of (topic m))) lbl = Inl e)"
    using that by (rule on_message_failed)
  show "out_topic_of (cam_id_of (''motion/device/'' @ ident @ ''/image''))
          = ''motion/device/'' @ ident @ ''/class''"
    if "CHR ''/'' \<notin> set ident"
    unfolding device_cam_id[OF that] out_topic_of_def ..
  show "deliver imdecode detect publish [] (before @ m # after)
       = deliver imdecode detect publish [] before
         @ on_message imdecode detect publish m
         @ deliver imdecode detect publish [] after"
    by (rule deliver_around)
qed

text \<open>
  Camera \<open>cam7\<close>: a decodable picture with a face is labelled \<open>"person"\<close> on
  \<open>motion/device/cam7/class\<close>; the message with the empty payload is dropped.
\<close>

theorem label_per_processed_message_witness:
  "cv_decode (mpayload good_message) = Inr (Some snapshot)
   \<and> classify_bgr one_face (Some snapshot) = Inr ''person''
   \<and> broker_ok (out_topic_of (cam_id_of (topic good_message))) ''person'' = Inr ()
   \<and> on_message cv_decode one_face broker_ok good_message
       = [(out_topic_of (cam_id_of (topic good_message)), ''person'')]
   \<and> (\<exists>e. cv_decode (mpayload empty_message) = Inl e)
   \<and> on_message cv_decode one_face broker_ok empty_message = []
   \<and> CHR ''/'' \<notin> set ''cam7''
   \<and> out_topic_of (cam_id_of (''motion/device/'' @ ''cam7'' @ ''/image''))
       = ''motion/device/'' @ ''cam7'' @ ''/class''"
proof -
  have h1: "cv_decode (mpayload good_message) = Inr (Some snapshot)
      \<and> classify_bgr one_face (Some snapshot) = Inr ''person''
      \<and> broker_ok (out_topic_of (cam_id_of (topic good_message))) ''person'' = Inr ()"
    by (simp add: cv_decode_def good_message_def classify_bgr_def one_face_def array_size_def
        snapshot_def broker_ok_def)
  have e: "\<exists>e. cv_decode (mpayload empty_message) = Inl e"
    by (simp add: cv_decode_def empty_message_def)
  then have h2: "(\<exists>e. cv_decode (mpayload empty_message) = Inl e)
        \<or> (\<exists>im e. cv_decode (mpayload empty_message) = Inr im \<and> classify_bgr one_face im = Inl e)
        \<or> (\<exists>im lbl e. cv_decode (mpayload empty_message) = Inr im \<and> classify_bgr one_face im = Inr lbl
              \<and> broker_ok (out_topic_of (cam_id_of (topic empty_message))) lbl = Inl e)"
    by (rule disjI1)
  have h3: "CHR ''/'' \<notin> set ''cam7''" by simp
  have a: "on_message cv_decode one_face broker_ok good_message
       = [(out_topic_of (cam_id_of (topic good_message)), ''person'')]"
    by (rule label_per_processed_message[of cv_decode one_face broker_ok good_message
          "Some snapshot" "''person''" "()" "''cam7''" "[]" "[]",
          THEN conjunct2, THEN conjunct1, THEN mp, OF h1])
  have b: "on_message cv_decode one_face broker_ok empty_message = []"
    by (rule label_per_processed_message[of cv_decode one_face broker_ok empty_message
          "Some snapshot" "''person''" "()" "''cam7''" "[]" "[]",
          THEN conjunct2, THEN conjunct2, THEN conjunct1, THEN mp, OF h2])
  have c: "out_topic_of (cam_id_of (''motion/device/'' @ ''cam7'' @ ''/image''))
       = ''motion/device/'' @ ''cam7'' @ ''/class''"
    by (rule label_per_processed_message[of cv_decode one_face broker_ok empty_message
          "Some snapshot" "''person''" "()" "''cam7''" "[]" "[]",
          THEN conjunct2, THEN conjunct2, THEN conjunct2, THEN conjunct1, THEN mp, OF h3])
  from h1 e h3 a b c show ?thesis by blast
qed

end
